theory Spec2Isabelle
  imports Complex_Main "HOL-Library.AList" "HOL-Library.List_Lexorder" "HOL-Library.Char_ord"
begin

section \<open>JavaScript values\<close>

text \<open>
  The module works on ordinary JavaScript data: primitives, objects with data
  properties, arrays and \<open>Date\<close> objects. Objects live in a store and are referred to
  by address, so that copying, aliasing and in-place assignment are visible. An object
  may refuse writes: it may be frozen, sealed or closed to extension, and single
  properties may be read-only. Functions, accessors, proxies and prototypes other than
  the built-in ones are outside this model.

  A number is an IEEE double: the two infinities, NaN, negative zero, or a finite value
  given by the rational it denotes (\<open>Fin 0\<close> is positive zero).
\<close>

datatype jsnum = NaN | PosInf | NegInf | NegZero | Fin rat

type_synonym addr = nat

datatype jsval = VUndefined | VNull | VBool bool | VNum jsnum | VStr string | VRef addr

text \<open>
  A plain object is the list of its own enumerable properties in enumeration order, an
  array the list of its elements (dense, without named properties of its own), a
  \<open>Date\<close> its time value in milliseconds (\<open>None\<close> for an invalid date).

  \<open>RestrictedObj extensible readOnly ps\<close> is an object with the properties \<open>ps\<close> on
  which \<open>Object.freeze\<close>, \<open>Object.seal\<close>, \<open>Object.preventExtensions\<close> or
  \<open>Object.defineProperty\<close> with \<open>writable: false\<close> has been used: \<open>readOnly\<close> names
  the properties that cannot be written, \<open>extensible\<close> tells whether new properties can
  be added. \<open>Object.freeze\<close> of the plain object \<open>ps\<close> is
  \<open>RestrictedObj False (map fst ps) ps\<close>. A \<open>PlainObj\<close> accepts every write.
\<close>

datatype jsobj =
    PlainObj "(string \<times> jsval) list"
  | ArrayObj "jsval list"
  | DateObj "int option"
  | RestrictedObj bool "string list" "(string \<times> jsval) list"

type_synonym heap = "jsobj list"

text \<open>
  \<open>TypeError\<close> and \<open>RangeError\<close> are the exceptions of the language (\<open>RangeError\<close> is
  the overflow of the call stack). \<open>OutsideModel\<close> marks the one step this model does not
  follow: an assignment to a named property of an array or of a \<open>Date\<close>.
\<close>

datatype jserror = TypeError | RangeError | OutsideModel

datatype jstype = TyUndefined | TyObject | TyBoolean | TyNumber | TyString

definition bindE :: "'e + 'a \<Rightarrow> ('a \<Rightarrow> 'e + 'b) \<Rightarrow> 'e + 'b" where
  "bindE m f = (case m of Inl e \<Rightarrow> Inl e | Inr x \<Rightarrow> f x)"

text \<open>
  The store is the list of the objects allocated so far, an address is a position in
  it. A reference to an address the store does not hold cannot arise in a running
  program; where the functions below meet one they leave it alone.
\<close>

definition heapGet :: "heap \<Rightarrow> addr \<Rightarrow> jsobj option" where
  "heapGet h a = (if a < length h then Some (h ! a) else None)"

definition alloc :: "heap \<Rightarrow> jsobj \<Rightarrow> jsval \<times> heap" where
  "alloc h ob = (VRef (length h), h @ [ob])"

fun typeof :: "jsval \<Rightarrow> jstype" where
  "typeof VUndefined = TyUndefined"
| "typeof VNull = TyObject"
| "typeof (VBool b) = TyBoolean"
| "typeof (VNum x) = TyNumber"
| "typeof (VStr s) = TyString"
| "typeof (VRef a) = TyObject"

definition isArray :: "heap \<Rightarrow> jsval \<Rightarrow> bool" where
  "isArray h v = (case v of
       VRef a \<Rightarrow> (case heapGet h a of Some (ArrayObj items) \<Rightarrow> True | _ \<Rightarrow> False)
     | _ \<Rightarrow> False)"

definition lookupProp :: "(string \<times> jsval) list \<Rightarrow> string \<Rightarrow> jsval" where
  "lookupProp ps k = (case map_of ps k of None \<Rightarrow> VUndefined | Some v \<Rightarrow> v)"

text \<open>
  \<open>o[k]\<close> read: a missing property is \<open>undefined\<close>; reading from \<open>undefined\<close> or
  \<open>null\<close> throws; restrictions on writing do not affect reading. The only names the
  module reads from an array or a \<open>Date\<close> are
  \<open>id\<close>, \<open>name\<close>, \<open>price\<close> and \<open>tags\<close>, which such an object does not have.
\<close>

fun getProp :: "heap \<Rightarrow> jsval \<Rightarrow> string \<Rightarrow> jserror + jsval" where
  "getProp h VUndefined k = Inl TypeError"
| "getProp h VNull k = Inl TypeError"
| "getProp h (VRef a) k =
     (case heapGet h a of
        Some (PlainObj ps) \<Rightarrow> Inr (lookupProp ps k)
      | Some (RestrictedObj extensible readOnly ps) \<Rightarrow> Inr (lookupProp ps k)
      | _ \<Rightarrow> Inr VUndefined)"
| "getProp h v k = Inr VUndefined"

text \<open>
  Whether an object with the given restrictions takes a write to \<open>k\<close>: the name must not
  be read-only, and a property that does not exist yet needs an extensible object.
\<close>

definition canWrite :: "bool \<Rightarrow> string list \<Rightarrow> (string \<times> jsval) list \<Rightarrow> string \<Rightarrow> bool" where
  "canWrite extensible readOnly ps k \<longleftrightarrow>
     k \<notin> set readOnly \<and> (extensible \<or> k \<in> fst ` set ps)"

text \<open>
  \<open>o[k] = v\<close> write, in strict mode (the module is an ES module): assigning to a property
  of a primitive throws, as does assigning to \<open>undefined\<close> or \<open>null\<close>, and as does an
  assignment that the object refuses (in sloppy mode that one would be ignored).
\<close>

fun setProp :: "heap \<Rightarrow> jsval \<Rightarrow> string \<Rightarrow> jsval \<Rightarrow> jserror + heap" where
  "setProp h (VRef a) k v =
     (case heapGet h a of
        Some (PlainObj ps) \<Rightarrow> Inr (h[a := PlainObj (AList.update k v ps)])
      | Some (RestrictedObj extensible readOnly ps) \<Rightarrow>
          if canWrite extensible readOnly ps k
          then Inr (h[a := RestrictedObj extensible readOnly (AList.update k v ps)])
          else Inl TypeError
      | Some other \<Rightarrow> Inl OutsideModel
      | None \<Rightarrow> Inr h)"
| "setProp h r k v = Inl TypeError"

section \<open>Number formatting: \<open>toFixed(2)\<close> and \<open>parseFloat\<close>\<close>

text \<open>
  The text returned by \<open>x.toFixed(2)\<close> is represented by what it spells: \<open>NaN\<close>,
  a signed \<open>Infinity\<close>, a sign with a count of hundredths (\<open>StrFixed True 1234\<close> is
  \<open>-12.34\<close>), or, from \<open>10^21\<close> on, the shortest text that reads back as the number
  itself (\<open>StrExp\<close>). ECMAScript picks, for \<open>toFixed\<close>, the integer \<open>n\<close> with
  \<open>n / 100\<close> closest to the magnitude, the larger one on a tie; the sign is kept even
  when \<open>n\<close> is zero, and negative zero prints without a sign.
\<close>

datatype numstr = StrNaN | StrInfinity bool | StrFixed bool nat | StrExp jsnum

fun toFixed2 :: "jsnum \<Rightarrow> numstr" where
  "toFixed2 NaN = StrNaN"
| "toFixed2 PosInf = StrInfinity False"
| "toFixed2 NegInf = StrInfinity True"
| "toFixed2 NegZero = StrFixed False 0"
| "toFixed2 (Fin x) =
     (if 10 ^ 21 \<le> \<bar>x\<bar> then StrExp (Fin x)
      else StrFixed (x < 0) (nat \<lfloor>\<bar>x\<bar> * 100 + 1 / 2\<rfloor>))"

text \<open>
  Reading a decimal back gives the nearest double, ties to the even significand of 53
  bits: with \<open>2^k \<le> q < 2^(k+1)\<close> the doubles around \<open>q\<close> are the multiples of
  \<open>2^(k-52)\<close>. The decimals read here lie between \<open>0.01\<close> and \<open>10^21\<close>, inside the
  normal range of doubles, so neither overflow nor gradual underflow arises, and
  \<open>ilog2\<close> finds \<open>k\<close> from the integer part of \<open>128 q\<close>. The text of a number from
  \<open>10^21\<close> on reads back as that number, as ECMAScript requires of number-to-text
  conversion.
\<close>

fun log2floor :: "nat \<Rightarrow> nat" where
  "log2floor n = (if n < 2 then 0 else Suc (log2floor (n div 2)))"

declare log2floor.simps [simp del]

definition pow2 :: "int \<Rightarrow> rat" where
  "pow2 e = (if 0 \<le> e then 2 ^ nat e else 1 / 2 ^ nat (- e))"

definition ilog2 :: "rat \<Rightarrow> int" where
  "ilog2 q = int (log2floor (nat \<lfloor>q * 128\<rfloor>)) - 7"

definition roundHalfEven :: "rat \<Rightarrow> int" where
  "roundHalfEven s =
     (let f = \<lfloor>s\<rfloor>; d = s - of_int f
      in if d < 1 / 2 then f else if 1 / 2 < d then f + 1 else if even f then f else f + 1)"

definition toDouble :: "rat \<Rightarrow> rat" where
  "toDouble q = (let e = ilog2 q - 52 in of_int (roundHalfEven (q / pow2 e)) * pow2 e)"

fun parseFloat :: "numstr \<Rightarrow> jsnum" where
  "parseFloat StrNaN = NaN"
| "parseFloat (StrInfinity neg) = (if neg then NegInf else PosInf)"
| "parseFloat (StrFixed neg n) =
     (if n = 0 then (if neg then NegZero else Fin 0)
      else if neg then Fin (- toDouble (of_nat n / 100))
      else Fin (toDouble (of_nat n / 100)))"
| "parseFloat (StrExp x) = x"

text \<open>\<open>v.toFixed(2)\<close> as a method call: only a number has the method.\<close>

definition toFixedCall :: "jsval \<Rightarrow> jserror + numstr" where
  "toFixedCall v = (case v of VNum x \<Rightarrow> Inr (toFixed2 x) | _ \<Rightarrow> Inl TypeError)"

text \<open>\<open>===\<close> on numbers: NaN equals nothing, the two zeros are equal.\<close>

fun numEq :: "jsnum \<Rightarrow> jsnum \<Rightarrow> bool" where
  "numEq NaN y = False"
| "numEq x NaN = False"
| "numEq NegZero y = (y = NegZero \<or> y = Fin 0)"
| "numEq x NegZero = (x = Fin 0)"
| "numEq x y = (x = y)"

fun strictEq :: "jsval \<Rightarrow> jsval \<Rightarrow> bool" where
  "strictEq (VNum x) (VNum y) = numEq x y"
| "strictEq v w = (v = w)"

section \<open>Strings\<close>

text \<open>
  \<open>trim\<close> removes white space at both ends; of the 8-bit characters these are the
  ASCII control characters 9 to 13, the space and the no-break space.
\<close>

definition isWhiteSpace :: "char \<Rightarrow> bool" where
  "isWhiteSpace c = (of_char c \<in> {9, 10, 11, 12, 13, 32, 160 :: nat})"

definition trim :: "string \<Rightarrow> string" where
  "trim s = rev (dropWhile isWhiteSpace (rev (dropWhile isWhiteSpace s)))"

definition trimCall :: "jsval \<Rightarrow> jserror + string" where
  "trimCall v = (case v of VStr s \<Rightarrow> Inr (trim s) | _ \<Rightarrow> Inl TypeError)"

definition isAlnum :: "char \<Rightarrow> bool" where
  "isAlnum c = (let n = (of_char c :: nat)
     in (97 \<le> n \<and> n \<le> 122) \<or> (65 \<le> n \<and> n \<le> 90) \<or> (48 \<le> n \<and> n \<le> 57))"

text \<open>\<open>/^[a-zA-Z0-9]+$/.test(s)\<close> on a string.\<close>

definition alnumTest :: "string \<Rightarrow> bool" where
  "alnumTest s = (s \<noteq> [] \<and> list_all isAlnum s)"

text \<open>\<open>a.some(p)\<close> as a method call: only an array has the method.\<close>

definition someCall :: "heap \<Rightarrow> jsval \<Rightarrow> (jsval \<Rightarrow> bool) \<Rightarrow> jserror + bool" where
  "someCall h v p = (case v of
       VRef a \<Rightarrow> (case heapGet h a of Some (ArrayObj items) \<Rightarrow> Inr (list_ex p items) | _ \<Rightarrow> Inl TypeError)
     | _ \<Rightarrow> Inl TypeError)"

section \<open>\<open>validateRecord\<close>\<close>

text \<open>
  \<open>ValidationResult\<close> and \<open>UpdateResult\<close>: \<open>{isValid: true, record}\<close> or
  \<open>{isValid: false, errors}\<close>.
\<close>

datatype result = Valid jsval | Invalid "string list"

fun isValid :: "result \<Rightarrow> bool" where
  "isValid (Valid r) = True"
| "isValid (Invalid es) = False"

definition validateId :: "heap \<Rightarrow> jsval \<Rightarrow> string list \<Rightarrow> jserror + string list" where
  "validateId h record errors =
     bindE (getProp h record ''id'') (\<lambda>v.
       if typeof v \<noteq> TyString then Inr (errors @ [''ID is required and must be a string.''])
       else bindE (trimCall v) (\<lambda>t.
         if length t = 0 then Inr (errors @ [''ID is required and must be a string.''])
         else Inr errors))"

definition validateName :: "heap \<Rightarrow> jsval \<Rightarrow> string list \<Rightarrow> jserror + string list" where
  "validateName h record errors =
     bindE (getProp h record ''name'') (\<lambda>v.
       if typeof v \<noteq> TyString
       then Inr (errors @ [''Name is required and must be a non-empty string.''])
       else bindE (trimCall v) (\<lambda>t.
         if length t = 0
         then Inr (errors @ [''Name is required and must be a non-empty string.''])
         else Inr errors))"

text \<open>
  \<open>typeof p !== 'number' || isNaN(p)\<close>: the second test runs on numbers only.
\<close>

definition notANumber :: "jsval \<Rightarrow> bool" where
  "notANumber v = (case v of VNum x \<Rightarrow> x = NaN | _ \<Rightarrow> True)"

definition validatePrice :: "heap \<Rightarrow> jsval \<Rightarrow> string list \<Rightarrow> jserror + (string list \<times> heap)" where
  "validatePrice h record errors =
     bindE (getProp h record ''price'') (\<lambda>v.
       if notANumber v then Inr (errors @ [''Price is required and must be a number.''], h)
       else bindE (toFixedCall v) (\<lambda>s.
            bindE (setProp h record ''price'' (VNum (parseFloat s))) (\<lambda>h'.
            Inr (errors, h'))))"

definition badTag :: "jsval \<Rightarrow> bool" where
  "badTag tag = (case tag of VStr s \<Rightarrow> \<not> alnumTest s | _ \<Rightarrow> True)"

definition validateTags :: "heap \<Rightarrow> jsval \<Rightarrow> string list \<Rightarrow> jserror + string list" where
  "validateTags h record errors =
     bindE (getProp h record ''tags'') (\<lambda>v.
       if \<not> isArray h v then Inr (errors @ [''Tags are required and must be an array.''])
       else bindE (someCall h v badTag) (\<lambda>bad.
         if bad then Inr (errors @ [''All tags must be alphanumeric strings.''])
         else Inr errors))"

definition validateRecord :: "heap \<Rightarrow> jsval \<Rightarrow> jserror + (result \<times> heap)" where
  "validateRecord h record =
     (if typeof record \<noteq> TyObject \<or> record = VNull
      then Inr (Invalid [''Record must be an object.''], h)
      else bindE (validateId h record []) (\<lambda>e1.
           bindE (validateName h record e1) (\<lambda>e2.
           bindE (validatePrice h record e2) (\<lambda>(e3, h').
           bindE (validateTags h' record e3) (\<lambda>e4.
             if length e4 > 0 then Inr (Invalid e4, h')
             else Inr (Valid record, h'))))))"

section \<open>\<open>deepCopy\<close>\<close>

text \<open>
  The recursion of \<open>deepCopy\<close> is bounded by the call stack: the first argument is the
  number of nested calls still available, and running out of it is the engine's
  \<open>RangeError\<close>. A cyclic structure exhausts every stack. The copy of an object is
  entered into the store once its fields are copied; addresses are not observable, so
  the moment of allocation does not matter. The copy starts as \<open>{}\<close>: it is a plain
  object also when the original is restricted.
\<close>

fun deepCopy :: "nat \<Rightarrow> heap \<Rightarrow> jsval \<Rightarrow> jserror + (jsval \<times> heap)"
  and deepCopyItems :: "nat \<Rightarrow> heap \<Rightarrow> jsval list \<Rightarrow> jserror + (jsval list \<times> heap)"
  and deepCopyProps ::
    "nat \<Rightarrow> heap \<Rightarrow> (string \<times> jsval) list \<Rightarrow> jserror + ((string \<times> jsval) list \<times> heap)"
where
  "deepCopy 0 h obj = Inl RangeError"
| "deepCopy (Suc n) h obj =
     (case obj of
        VRef a \<Rightarrow>
          (case heapGet h a of
             None \<Rightarrow> Inr (obj, h)
           | Some (DateObj t) \<Rightarrow> Inr (alloc h (DateObj t))
           | Some (ArrayObj items) \<Rightarrow>
               (case deepCopyItems n h items of
                  Inl e \<Rightarrow> Inl e
                | Inr (items', h') \<Rightarrow> Inr (alloc h' (ArrayObj items')))
           | Some (PlainObj ps) \<Rightarrow>
               (case deepCopyProps n h ps of
                  Inl e \<Rightarrow> Inl e
                | Inr (ps', h') \<Rightarrow> Inr (alloc h' (PlainObj ps')))
           | Some (RestrictedObj extensible readOnly ps) \<Rightarrow>
               (case deepCopyProps n h ps of
                  Inl e \<Rightarrow> Inl e
                | Inr (ps', h') \<Rightarrow> Inr (alloc h' (PlainObj ps'))))
      | _ \<Rightarrow> Inr (obj, h))"
| "deepCopyItems n h [] = Inr ([], h)"
| "deepCopyItems n h (item # items) =
     (case deepCopy n h item of
        Inl e \<Rightarrow> Inl e
      | Inr (item', h') \<Rightarrow>
          (case deepCopyItems n h' items of
             Inl e \<Rightarrow> Inl e
           | Inr (items', h'') \<Rightarrow> Inr (item' # items', h'')))"
| "deepCopyProps n h [] = Inr ([], h)"
| "deepCopyProps n h ((key, v) # ps) =
     (case deepCopy n h v of
        Inl e \<Rightarrow> Inl e
      | Inr (v', h') \<Rightarrow>
          (case deepCopyProps n h' ps of
             Inl e \<Rightarrow> Inl e
           | Inr (ps', h'') \<Rightarrow> Inr ((key, v') # ps', h'')))"

section \<open>\<open>updateRecordWithValidation\<close>\<close>

text \<open>
  The keys a \<open>for ... in\<close> loop with the \<open>hasOwnProperty\<close> test visits, each with the
  value read under it: the properties of an object, the indices of an array or of
  a string, nothing for any other value.
\<close>

fun decimal :: "nat \<Rightarrow> string" where
  "decimal n =
     (if n < 10 then [char_of (48 + n)] else decimal (n div 10) @ [char_of (48 + n mod 10)])"

declare decimal.simps [simp del]

definition indexed :: "jsval list \<Rightarrow> (string \<times> jsval) list" where
  "indexed vs = zip (map decimal [0..<length vs]) vs"

definition ownEntries :: "heap \<Rightarrow> jsval \<Rightarrow> (string \<times> jsval) list" where
  "ownEntries h v = (case v of
       VRef a \<Rightarrow>
         (case heapGet h a of
            Some (PlainObj ps) \<Rightarrow> ps
          | Some (RestrictedObj extensible readOnly ps) \<Rightarrow> ps
          | Some (ArrayObj items) \<Rightarrow> indexed items
          | _ \<Rightarrow> [])
     | VStr s \<Rightarrow> indexed (map (\<lambda>c. VStr [c]) s)
     | _ \<Rightarrow> [])"

text \<open>
  \<open>JSON.stringify([...a].sort()) !== JSON.stringify([...b].sort())\<close>. On arrays of strings
  the default sort orders by code units and the JSON text determines the array, so the
  texts differ exactly when the sorted arrays do. What the two built-ins do with
  elements that are not strings (conversion to text, cyclic structures) is left to the
  parameter \<open>cmp\<close>; neither writes to the store.
\<close>

fun stringsOf :: "jsval list \<Rightarrow> string list option" where
  "stringsOf [] = Some []"
| "stringsOf (VStr s # vs) = map_option ((#) s) (stringsOf vs)"
| "stringsOf (v # vs) = None"

definition itemsOf :: "heap \<Rightarrow> jsval \<Rightarrow> jsval list" where
  "itemsOf h v = (case v of
       VRef a \<Rightarrow> (case heapGet h a of Some (ArrayObj items) \<Rightarrow> items | _ \<Rightarrow> [])
     | _ \<Rightarrow> [])"

type_synonym cmp = "heap \<Rightarrow> jsval list \<Rightarrow> jsval list \<Rightarrow> jserror + bool"

definition sortedTextDiffers :: "cmp \<Rightarrow> heap \<Rightarrow> jsval \<Rightarrow> jsval \<Rightarrow> jserror + bool" where
  "sortedTextDiffers cmp h newValue oldValue =
     (case (stringsOf (itemsOf h newValue), stringsOf (itemsOf h oldValue)) of
        (Some new, Some old) \<Rightarrow> Inr (sort new \<noteq> sort old)
      | _ \<Rightarrow> cmp h (itemsOf h newValue) (itemsOf h oldValue))"

text \<open>The body of the loop, for one key of the change set.\<close>

definition applyChange :: "cmp \<Rightarrow> heap \<Rightarrow> jsval \<Rightarrow> string \<times> jsval \<Rightarrow> jserror + heap" where
  "applyChange cmp h updatedRecord kv =
     (let key = fst kv; newValue = snd kv in
      bindE (getProp h updatedRecord key) (\<lambda>oldValue.
        if key = ''price'' \<and> typeof newValue = TyNumber \<and> typeof oldValue = TyNumber then
          bindE (toFixedCall newValue) (\<lambda>sNew.
          bindE (toFixedCall oldValue) (\<lambda>sOld.
            if \<not> numEq (parseFloat sNew) (parseFloat sOld)
            then setProp h updatedRecord key newValue
            else Inr h))
        else if key = ''tags'' \<and> isArray h newValue \<and> isArray h oldValue then
          bindE (sortedTextDiffers cmp h newValue oldValue) (\<lambda>differs.
            if differs then setProp h updatedRecord key newValue else Inr h)
        else if \<not> strictEq newValue oldValue then setProp h updatedRecord key newValue
        else Inr h))"

fun applyChanges :: "cmp \<Rightarrow> heap \<Rightarrow> jsval \<Rightarrow> (string \<times> jsval) list \<Rightarrow> jserror + heap" where
  "applyChanges cmp h updatedRecord [] = Inr h"
| "applyChanges cmp h updatedRecord (kv # kvs) =
     (case applyChange cmp h updatedRecord kv of
        Inl e \<Rightarrow> Inl e
      | Inr h' \<Rightarrow> applyChanges cmp h' updatedRecord kvs)"

text \<open>
  \<open>depth\<close> is the call stack left for \<open>deepCopy\<close>, \<open>now\<close> the value of \<open>Date.now()\<close>.
  The change set is not written by the loop, so its entries are read once, when the
  loop starts.
\<close>

definition updateRecordWithValidation ::
  "cmp \<Rightarrow> nat \<Rightarrow> int \<Rightarrow> heap \<Rightarrow> jsval \<Rightarrow> jsval \<Rightarrow> jserror + (result \<times> heap)" where
  "updateRecordWithValidation cmp depth now h currentRecord updates =
     bindE (deepCopy depth h currentRecord) (\<lambda>(updatedRecord, h1).
     case alloc h1 (DateObj (Some now)) of (stamp, h2) \<Rightarrow>
     bindE (setProp h2 updatedRecord ''updatedAt'' stamp) (\<lambda>h3.
     bindE (applyChanges cmp h3 updatedRecord (ownEntries h3 updates)) (\<lambda>h4.
     bindE (validateRecord h4 updatedRecord) (\<lambda>(validationResult, h5).
       case validationResult of
         Invalid errors \<Rightarrow> Inr (Invalid errors, h5)
       | Valid r \<Rightarrow> Inr (Valid r, h5)))))"

section \<open>Reading a value out of the store\<close>

text \<open>
  The content of a value, followed through the store to the given depth: two values
  are deep-equal when their contents are equal. \<open>None\<close> means the depth did not
  suffice. Whether an object refuses writes is not part of its content.
\<close>

datatype content =
    CUndefined | CNull | CBool bool | CNum jsnum | CStr string
  | CDate "int option" | CArray "content list" | CObject "(string \<times> content) list"

fun snapshot :: "nat \<Rightarrow> heap \<Rightarrow> jsval \<Rightarrow> content option"
  and snapshotItems :: "nat \<Rightarrow> heap \<Rightarrow> jsval list \<Rightarrow> content list option"
  and snapshotProps :: "nat \<Rightarrow> heap \<Rightarrow> (string \<times> jsval) list \<Rightarrow> (string \<times> content) list option"
where
  "snapshot 0 h v = None"
| "snapshot (Suc n) h VUndefined = Some CUndefined"
| "snapshot (Suc n) h VNull = Some CNull"
| "snapshot (Suc n) h (VBool b) = Some (CBool b)"
| "snapshot (Suc n) h (VNum x) = Some (CNum x)"
| "snapshot (Suc n) h (VStr s) = Some (CStr s)"
| "snapshot (Suc n) h (VRef a) =
     (case heapGet h a of
        None \<Rightarrow> None
      | Some (DateObj t) \<Rightarrow> Some (CDate t)
      | Some (ArrayObj items) \<Rightarrow> map_option CArray (snapshotItems n h items)
      | Some (PlainObj ps) \<Rightarrow> map_option CObject (snapshotProps n h ps)
      | Some (RestrictedObj extensible readOnly ps) \<Rightarrow>
          map_option CObject (snapshotProps n h ps))"
| "snapshotItems n h [] = Some []"
| "snapshotItems n h (v # vs) =
     (case snapshot n h v of
        None \<Rightarrow> None
      | Some c \<Rightarrow> map_option ((#) c) (snapshotItems n h vs))"
| "snapshotProps n h [] = Some []"
| "snapshotProps n h ((key, v) # ps) =
     (case snapshot n h v of
        None \<Rightarrow> None
      | Some c \<Rightarrow> map_option ((#) (key, c)) (snapshotProps n h ps))"

section \<open>Notions used in the statements\<close>

text \<open>The \<open>errors\<close> field of a result; a valid result has none.\<close>

fun errorsOf :: "result \<Rightarrow> string list" where
  "errorsOf (Invalid es) = es"
| "errorsOf (Valid r) = []"

text \<open>
  A value that the store can hold: a reference among its addresses, or a primitive.
\<close>

definition allocated :: "heap \<Rightarrow> jsval \<Rightarrow> bool" where
  "allocated h v = (case v of VRef a \<Rightarrow> a < length h | _ \<Rightarrow> True)"

text \<open>
  The named properties of an object (an array or a \<open>Date\<close> has none here), the same
  object with other properties, and whether the object takes a write to a key.
\<close>

fun propsOf :: "jsobj \<Rightarrow> (string \<times> jsval) list option" where
  "propsOf (PlainObj ps) = Some ps"
| "propsOf (RestrictedObj extensible readOnly ps) = Some ps"
| "propsOf (ArrayObj items) = None"
| "propsOf (DateObj t) = None"

fun withProps :: "jsobj \<Rightarrow> (string \<times> jsval) list \<Rightarrow> jsobj" where
  "withProps (PlainObj ps) qs = PlainObj qs"
| "withProps (RestrictedObj extensible readOnly ps) qs = RestrictedObj extensible readOnly qs"
| "withProps (ArrayObj items) qs = ArrayObj items"
| "withProps (DateObj t) qs = DateObj t"

fun accepts :: "jsobj \<Rightarrow> string \<Rightarrow> bool" where
  "accepts (PlainObj ps) k = True"
| "accepts (RestrictedObj extensible readOnly ps) k = canWrite extensible readOnly ps k"
| "accepts (ArrayObj items) k = False"
| "accepts (DateObj t) k = False"

text \<open>Whether an address holds an object with named properties.\<close>

definition hasProps :: "heap \<Rightarrow> addr \<Rightarrow> bool" where
  "hasProps h c \<longleftrightarrow> (case heapGet h c of Some ob \<Rightarrow> propsOf ob \<noteq> None | None \<Rightarrow> False)"


text \<open>
  Two stores that agree everywhere except, possibly, at one address.
\<close>

definition sameExcept :: "addr \<Rightarrow> heap \<Rightarrow> heap \<Rightarrow> bool" where
  "sameExcept c h h' \<longleftrightarrow> length h' = length h \<and> (\<forall>a. a \<noteq> c \<longrightarrow> a < length h \<longrightarrow> h' ! a = h ! a)"

text \<open>
  A comparison for the cases \<open>sortedTextDiffers\<close> leaves open; the examples only compare
  arrays of strings and never consult it.
\<close>

definition cmpNone :: cmp where
  "cmpNone h new old = Inl TypeError"

section \<open>Example records\<close>

text \<open>
  The record of the test suite, with a price that needs rounding (50.00390625, which
  is a double): the object, its tags, and its two dates (1 January 2023).
\<close>

definition exampleStore :: heap where
  "exampleStore =
     [PlainObj [(''id'', VStr ''rec123''), (''name'', VStr ''Test Product''),
                (''price'', VNum (Fin (12801 / 256))), (''tags'', VRef 1),
                (''createdAt'', VRef 2), (''updatedAt'', VRef 3)],
      ArrayObj [VStr ''electronics'', VStr ''gadget''],
      DateObj (Some 1672531200000),
      DateObj (Some 1672531200000)]"

definition exampleValidated :: heap where
  "exampleValidated =
     [PlainObj [(''id'', VStr ''rec123''), (''name'', VStr ''Test Product''),
                (''price'', VNum (Fin 50)), (''tags'', VRef 1),
                (''createdAt'', VRef 2), (''updatedAt'', VRef 3)],
      ArrayObj [VStr ''electronics'', VStr ''gadget''],
      DateObj (Some 1672531200000),
      DateObj (Some 1672531200000)]"


text \<open>A record whose price is \<open>Infinity\<close>.\<close>

definition infinitePriceStore :: heap where
  "infinitePriceStore =
     [PlainObj [(''id'', VStr ''rec123''), (''name'', VStr ''Test Product''),
                (''price'', VNum PosInf), (''tags'', VRef 1)],
      ArrayObj [VStr ''electronics'', VStr ''gadget'']]"

text \<open>
  The store of the test suite's record together with a change set \<open>{name: 'New Name'}\<close>,
  and the store after the update at time 1678886400000: the copies of the tags and of
  the two dates, the updated record, and its new \<open>updatedAt\<close>.
\<close>

definition renameStore :: heap where
  "renameStore = exampleStore @ [PlainObj [(''name'', VStr ''New Name'')]]"

definition renamedStore :: heap where
  "renamedStore = renameStore @
     [ArrayObj [VStr ''electronics'', VStr ''gadget''],
      DateObj (Some 1672531200000),
      DateObj (Some 1672531200000),
      PlainObj [(''id'', VStr ''rec123''), (''name'', VStr ''New Name''),
                (''price'', VNum (Fin 50)), (''tags'', VRef 5),
                (''createdAt'', VRef 6), (''updatedAt'', VRef 9)],
      DateObj (Some 1678886400000)]"

text \<open>
  The same record with a change set whose \<open>name\<close> is the empty string, which the
  validator rejects, and the store the rejected update leaves behind.
\<close>

definition emptyNameStore :: heap where
  "emptyNameStore = exampleStore @ [PlainObj [(''name'', VStr [])]]"

definition emptyNameAfter :: heap where
  "emptyNameAfter = emptyNameStore @
     [ArrayObj [VStr ''electronics'', VStr ''gadget''],
      DateObj (Some 1672531200000),
      DateObj (Some 1672531200000),
      PlainObj [(''id'', VStr ''rec123''), (''name'', VStr []),
                (''price'', VNum (Fin 50)), (''tags'', VRef 5),
                (''createdAt'', VRef 6), (''updatedAt'', VRef 9)],
      DateObj (Some 1678886400000)]"

text \<open>
  The same record with a change set \<open>{updatedAt: new Date(0)}\<close>, and the store after the
  update: the record at address 9 carries the date of the change set.
\<close>

definition restampStore :: heap where
  "restampStore = exampleStore @ [PlainObj [(''updatedAt'', VRef 5)], DateObj (Some 0)]"

definition restampedStore :: heap where
  "restampedStore = restampStore @
     [ArrayObj [VStr ''electronics'', VStr ''gadget''],
      DateObj (Some 1672531200000),
      DateObj (Some 1672531200000),
      PlainObj [(''id'', VStr ''rec123''), (''name'', VStr ''Test Product''),
                (''price'', VNum (Fin 50)), (''tags'', VRef 6),
                (''createdAt'', VRef 7), (''updatedAt'', VRef 5)],
      DateObj (Some 1678886400000)]"

text \<open>
  The same record with a change set that names \<open>id\<close> and \<open>createdAt\<close>, and the store
  after the update: the record at address 9 has taken both.
\<close>

definition reidStore :: heap where
  "reidStore = exampleStore @
     [PlainObj [(''id'', VStr ''other''), (''createdAt'', VRef 5)], DateObj (Some 0)]"

definition reidAfter :: heap where
  "reidAfter = reidStore @
     [ArrayObj [VStr ''electronics'', VStr ''gadget''],
      DateObj (Some 1672531200000),
      DateObj (Some 1672531200000),
      PlainObj [(''id'', VStr ''other''), (''name'', VStr ''Test Product''),
                (''price'', VNum (Fin 50)), (''tags'', VRef 6),
                (''createdAt'', VRef 5), (''updatedAt'', VRef 10)],
      DateObj (Some 1678886400000)]"

text \<open>
  A valid record with tags \<open>["a", "b"]\<close> (address 1) and a change set with tags
  \<open>["b", "a"]\<close> (address 5).
\<close>

definition tagStore :: heap where
  "tagStore =
     [PlainObj [(''id'', VStr ''rec123''), (''name'', VStr ''Original Product''),
                (''price'', VNum (Fin 50)), (''tags'', VRef 1),
                (''createdAt'', VRef 2), (''updatedAt'', VRef 3)],
      ArrayObj [VStr ''a'', VStr ''b''],
      DateObj (Some 1672531200000),
      DateObj (Some 1672531200000),
      PlainObj [(''tags'', VRef 5)],
      ArrayObj [VStr ''b'', VStr ''a'']]"

definition tagAfter :: heap where
  "tagAfter = tagStore @
     [ArrayObj [VStr ''a'', VStr ''b''],
      DateObj (Some 1672531200000),
      DateObj (Some 1672531200000),
      PlainObj [(''id'', VStr ''rec123''), (''name'', VStr ''Original Product''),
                (''price'', VNum (Fin 50)), (''tags'', VRef 6),
                (''createdAt'', VRef 7), (''updatedAt'', VRef 10)],
      DateObj (Some 1678886400000)]"

text \<open>
  A record whose price is \<open>-1/1024\<close> (a double), the same record after one validation,
  with a price of negative zero, and after a second one, with a price of zero.
\<close>

definition smallNegativeStore :: heap where
  "smallNegativeStore =
     [PlainObj [(''id'', VStr ''rec123''), (''name'', VStr ''Test Product''),
                (''price'', VNum (Fin (- 1 / 1024))), (''tags'', VRef 1)],
      ArrayObj [VStr ''electronics'', VStr ''gadget'']]"

definition negativeZeroStore :: heap where
  "negativeZeroStore =
     [PlainObj [(''id'', VStr ''rec123''), (''name'', VStr ''Test Product''),
                (''price'', VNum NegZero), (''tags'', VRef 1)],
      ArrayObj [VStr ''electronics'', VStr ''gadget'']]"

definition zeroStore :: heap where
  "zeroStore =
     [PlainObj [(''id'', VStr ''rec123''), (''name'', VStr ''Test Product''),
                (''price'', VNum (Fin 0)), (''tags'', VRef 1)],
      ArrayObj [VStr ''electronics'', VStr ''gadget'']]"




section \<open>Basic facts\<close>

lemma bindE_simps [simp]: "bindE (Inl e) f = Inl e" "bindE (Inr x) f = f x"
  by (simp_all add: bindE_def)

lemma bindE_Inr_iff: "bindE m f = Inr y \<longleftrightarrow> (\<exists>x. m = Inr x \<and> f x = Inr y)"
  by (cases m) simp_all

lemma floor_rat_numeral: "\<lfloor>numeral a / numeral b :: rat\<rfloor> = numeral a div numeral b"
  using floor_divide_of_int_eq [of "numeral a" "numeral b", where ?'a = rat] by simp

lemma log2floor_small: "n < 2 \<Longrightarrow> log2floor n = 0"
  by (simp add: log2floor.simps)

lemma log2floor_step: "2 \<le> n \<Longrightarrow> log2floor n = Suc (log2floor (n div 2))"
  by (subst log2floor.simps) simp

lemmas number_eval = toDouble_def ilog2_def pow2_def roundHalfEven_def Let_def
  floor_rat_numeral log2floor_small log2floor_step

lemmas validate_eval = validateRecord_def validateId_def validateName_def validatePrice_def
  validateTags_def heapGet_def lookupProp_def trimCall_def trim_def isWhiteSpace_def
  notANumber_def toFixedCall_def isArray_def someCall_def badTag_def alnumTest_def isAlnum_def

lemma getProp_ref: "\<exists>v. getProp h (VRef a) k = Inr v"
  by (simp split: option.split jsobj.split)

lemma getProp_number:
  "getProp h (VRef a) k = Inr (VNum x) \<Longrightarrow>
     \<exists>ob ps. heapGet h a = Some ob \<and> propsOf ob = Some ps \<and> lookupProp ps k = VNum x"
  by (auto split: option.splits jsobj.splits)

lemma getProp_props:
  "heapGet h a = Some ob \<Longrightarrow> propsOf ob = Some ps \<Longrightarrow> getProp h (VRef a) k = Inr (lookupProp ps k)"
  by (cases ob) simp_all

lemma setProp_props:
  "heapGet h a = Some ob \<Longrightarrow> propsOf ob = Some ps \<Longrightarrow>
     setProp h (VRef a) k v =
       (if accepts ob k then Inr (h[a := withProps ob (AList.update k v ps)]) else Inl TypeError)"
  by (cases ob) simp_all

lemma propsOf_withProps: "propsOf ob = Some ps \<Longrightarrow> propsOf (withProps ob qs) = Some qs"
  by (cases ob) simp_all

lemma withProps_twice: "withProps (withProps ob ps) qs = withProps ob qs"
  by (cases ob) simp_all

lemma withProps_same: "propsOf ob = Some ps \<Longrightarrow> withProps ob ps = ob"
  by (cases ob) simp_all

lemma accepts_withProps:
  "accepts ob k \<Longrightarrow> accepts (withProps ob (AList.update k v ps)) k"
  by (cases ob) (auto simp: canWrite_def dom_update intro: rev_image_eqI)

lemma lookupProp_update:
  "lookupProp (AList.update k v ps) k' = (if k' = k then v else lookupProp ps k')"
  by (simp add: lookupProp_def update_conv)

lemma getProp_written:
  "a < length h \<Longrightarrow> getProp (h[a := PlainObj ps]) (VRef a) k = Inr (lookupProp ps k)"
  by (simp add: heapGet_def)

lemma getProp_withProps:
  "a < length h \<Longrightarrow> propsOf ob = Some ps \<Longrightarrow>
     getProp (h[a := withProps ob qs]) (VRef a) k = Inr (lookupProp qs k)"
  by (cases ob) (simp_all add: heapGet_def)

lemma heapGet_length: "heapGet h a = Some ob \<Longrightarrow> a < length h"
  by (simp add: heapGet_def split: if_splits)

lemma not_notANumber: "\<not> notANumber v \<longleftrightarrow> (\<exists>x. v = VNum x \<and> x \<noteq> NaN)"
  by (auto simp: notANumber_def split: jsval.splits)

section \<open>The stages of \<open>validateRecord\<close>\<close>

text \<open>
  On a reference the stages for \<open>id\<close>, \<open>name\<close> and \<open>tags\<close> return; they append at
  most their own message and leave the store alone. The stage for \<open>price\<close> writes
  the rounded price, and throws when the record refuses that write.
\<close>

lemma validateId_ref:
  "\<exists>es'. validateId h (VRef a) es = Inr (es @ es') \<and>
         set es' \<subseteq> {''ID is required and must be a string.''}"
  using getProp_ref [of h a "''id''"]
  by (auto simp: validateId_def trimCall_def split: jsval.splits)

lemma validateName_ref:
  "\<exists>es'. validateName h (VRef a) es = Inr (es @ es') \<and>
         set es' \<subseteq> {''Name is required and must be a non-empty string.''}"
  using getProp_ref [of h a "''name''"]
  by (auto simp: validateName_def trimCall_def split: jsval.splits)

lemma validateTags_ref:
  "\<exists>es'. validateTags h (VRef a) es = Inr (es @ es') \<and>
         set es' \<subseteq> {''Tags are required and must be an array.'',
                     ''All tags must be alphanumeric strings.''}"
  using getProp_ref [of h a "''tags''"]
  by (auto simp: validateTags_def isArray_def someCall_def
      split: jsval.splits option.splits jsobj.splits)

lemma validatePrice_number:
  assumes "heapGet h a = Some ob" and "propsOf ob = Some ps"
    and "lookupProp ps ''price'' = VNum x" and "x \<noteq> NaN"
  shows "validatePrice h (VRef a) es =
    (if accepts ob ''price''
     then Inr (es, h[a := withProps ob (AList.update ''price'' (VNum (parseFloat (toFixed2 x))) ps)])
     else Inl TypeError)"
  using assms getProp_props [OF assms(1,2), of "''price''"] setProp_props [OF assms(1,2)]
  by (simp add: validatePrice_def notANumber_def toFixedCall_def del: getProp.simps setProp.simps)

lemma validatePrice_other:
  assumes "getProp h (VRef a) ''price'' = Inr v" and "notANumber v"
  shows "validatePrice h (VRef a) es =
    Inr (es @ [''Price is required and must be a number.''], h)"
  using assms by (simp add: validatePrice_def)

lemma validateRecord_nonref:
  "(\<forall>a. r \<noteq> VRef a) \<Longrightarrow> validateRecord h r = Inr (Invalid [''Record must be an object.''], h)"
  by (cases r) (simp_all add: validateRecord_def)

text \<open>
  The two ways a run on a reference that returns can go: the price is rejected, the
  store is left as it was and the result carries the price message; or the price is a
  number other than NaN, the record takes the write, the store changes in the price
  field of the record alone, and the price message is absent.
\<close>

lemma validateRecord_ref_cases:
  assumes run: "validateRecord h (VRef a) = Inr (res, h')"
  shows "(\<exists>v es. getProp h (VRef a) ''price'' = Inr v \<and> notANumber v \<and> res = Invalid es \<and>
            ''Price is required and must be a number.'' \<in> set es \<and> h' = h)
       \<or> (\<exists>ob ps x. heapGet h a = Some ob \<and> propsOf ob = Some ps \<and>
            lookupProp ps ''price'' = VNum x \<and> x \<noteq> NaN \<and> accepts ob ''price'' \<and>
            h' = h[a := withProps ob (AList.update ''price'' (VNum (parseFloat (toFixed2 x))) ps)] \<and>
            (res = Valid (VRef a) \<or>
             (\<exists>es. res = Invalid es \<and> ''Price is required and must be a number.'' \<notin> set es)))"
proof -
  obtain e1 where e1: "validateId h (VRef a) [] = Inr ([] @ e1)"
    and s1: "set e1 \<subseteq> {''ID is required and must be a string.''}"
    using validateId_ref by blast
  obtain e2 where e2: "validateName h (VRef a) ([] @ e1) = Inr (([] @ e1) @ e2)"
    and s2: "set e2 \<subseteq> {''Name is required and must be a non-empty string.''}"
    using validateName_ref by blast
  obtain v where v: "getProp h (VRef a) ''price'' = Inr v"
    using getProp_ref by blast
  show ?thesis
  proof (cases "notANumber v")
    case True
    let ?es = "(([] @ e1) @ e2) @ [''Price is required and must be a number.'']"
    have e3: "validatePrice h (VRef a) (([] @ e1) @ e2) = Inr (?es, h)"
      using v True by (rule validatePrice_other)
    obtain e4 where e4: "validateTags h (VRef a) ?es = Inr (?es @ e4)"
      using validateTags_ref by blast
    have "validateRecord h (VRef a) = Inr (Invalid (?es @ e4), h)"
      using e1 e2 e3 e4 by (simp add: validateRecord_def)
    with run have "res = Invalid (?es @ e4)" "h' = h"
      by simp_all
    with v True show ?thesis
      by auto
  next
    case False
    then obtain x where x: "v = VNum x" "x \<noteq> NaN"
      using not_notANumber by blast
    obtain ob ps where ps: "heapGet h a = Some ob" "propsOf ob = Some ps"
      "lookupProp ps ''price'' = VNum x"
      using getProp_number v x by blast
    let ?h' = "h[a := withProps ob (AList.update ''price'' (VNum (parseFloat (toFixed2 x))) ps)]"
    note price = validatePrice_number [OF ps x(2), of "([] @ e1) @ e2"]
    have acc: "accepts ob ''price''"
    proof (rule ccontr)
      assume "\<not> accepts ob ''price''"
      with price e1 e2 have "validateRecord h (VRef a) = Inl TypeError"
        by (simp add: validateRecord_def)
      with run show False
        by simp
    qed
    with price have e3: "validatePrice h (VRef a) (([] @ e1) @ e2) = Inr (([] @ e1) @ e2, ?h')"
      by simp
    obtain e4 where e4: "validateTags ?h' (VRef a) (([] @ e1) @ e2) = Inr ((([] @ e1) @ e2) @ e4)"
      and s4: "set e4 \<subseteq> {''Tags are required and must be an array.'',
                         ''All tags must be alphanumeric strings.''}"
      using validateTags_ref by blast
    have "validateRecord h (VRef a) =
        (if length (e1 @ e2 @ e4) > 0 then Inr (Invalid (e1 @ e2 @ e4), ?h')
         else Inr (Valid (VRef a), ?h'))"
      using e1 e2 e3 e4 by (simp add: validateRecord_def)
    with run have res: "h' = ?h'"
      "res = Valid (VRef a) \<or> res = Invalid (e1 @ e2 @ e4)"
      by (auto split: if_splits)
    have "''Price is required and must be a number.'' \<notin> set (e1 @ e2 @ e4)"
      using s1 s2 s4 by auto
    with res ps x(2) acc show ?thesis
      by auto
  qed
qed

lemma validateRecord_rounds_price_run:
  assumes "heapGet h a = Some ob" and "propsOf ob = Some ps"
    and "lookupProp ps ''price'' = VNum x"
    and "x \<noteq> NaN" and "validateRecord h (VRef a) = Inr (res, h')"
  shows "h' = h[a := withProps ob (AList.update ''price'' (VNum (parseFloat (toFixed2 x))) ps)]"
  using validateRecord_ref_cases [OF assms(5)] assms(1-4) getProp_props [OF assms(1,2), of "''price''"]
  by (auto simp: notANumber_def simp del: getProp.simps)

section \<open>Properties of \<open>validateRecord\<close>\<close>







text \<open>
  Claim C10. An array is not stopped by the structural test: \<open>validateRecord\<close> goes on
  to the field checks and returns the four field messages, for \<open>id\<close>, \<open>name\<close>,
  \<open>price\<close> and \<open>tags\<close>, in this order, and not ``Record must be an object.''
\<close>

theorem validateRecord_array:
  assumes "heapGet h a = Some (ArrayObj items)"
  shows "validateRecord h (VRef a) = Inr (Invalid
    [''ID is required and must be a string.'',
     ''Name is required and must be a non-empty string.'',
     ''Price is required and must be a number.'',
     ''Tags are required and must be an array.''], h)"
  using assms
  by (simp add: validateRecord_def validateId_def validateName_def validatePrice_def
      validateTags_def notANumber_def isArray_def)

theorem validateRecord_array_witness:
  "heapGet [ArrayObj [VStr ''a'']] 0 = Some (ArrayObj [VStr ''a'']) \<and>
   validateRecord [ArrayObj [VStr ''a'']] (VRef 0) = Inr (Invalid
    [''ID is required and must be a string.'',
     ''Name is required and must be a non-empty string.'',
     ''Price is required and must be a number.'',
     ''Tags are required and must be an array.''], [ArrayObj [VStr ''a'']])"
proof -
  have h: "heapGet [ArrayObj [VStr ''a'']] 0 = Some (ArrayObj [VStr ''a''])"
    by (simp add: heapGet_def)
  show ?thesis
    using h validateRecord_array [OF h] by simp
qed



text \<open>
  Claim C5. When \<open>validateRecord\<close> succeeds on a record, the result is valid, its record
  is the candidate itself, and the price found there afterwards is the original price
  rounded to two decimals: \<open>parseFloat(price.toFixed(2))\<close>.
\<close>

theorem validateRecord_valid_price_rounded:
  assumes "validateRecord h r = Inr (res, h')" and "isValid res"
  shows "res = Valid r \<and>
    (\<exists>x. getProp h r ''price'' = Inr (VNum x) \<and>
         getProp h' r ''price'' = Inr (VNum (parseFloat (toFixed2 x))))"
proof -
  from assms obtain a where r: "r = VRef a"
    using validateRecord_nonref [of r h] by (cases r) auto
  from validateRecord_ref_cases [of h a res h'] assms r
  obtain ob ps x where ps: "heapGet h a = Some ob" "propsOf ob = Some ps"
      "lookupProp ps ''price'' = VNum x"
    and h': "h' = h[a := withProps ob (AList.update ''price'' (VNum (parseFloat (toFixed2 x))) ps)]"
    and res: "res = Valid (VRef a)"
    by auto
  have "a < length h"
    using ps(1) by (rule heapGet_length)
  then have "getProp h' r ''price'' = Inr (VNum (parseFloat (toFixed2 x)))"
    unfolding r h' using ps(2)
    by (simp add: getProp_withProps lookupProp_update del: getProp.simps)
  moreover have "getProp h r ''price'' = Inr (VNum x)"
    unfolding r using getProp_props [OF ps(1,2), of "''price''"] ps(3)
    by (simp del: getProp.simps)
  ultimately show ?thesis
    using res by (simp add: r del: getProp.simps)
qed

text \<open>The record of the test suite with a price of 50.00390625 comes back with 50.\<close>

theorem validateRecord_valid_price_rounded_witness:
  "validateRecord exampleStore (VRef 0) = Inr (Valid (VRef 0), exampleValidated) \<and>
   isValid (Valid (VRef 0)) \<and>
   getProp exampleStore (VRef 0) ''price'' = Inr (VNum (Fin (12801 / 256))) \<and>
   getProp exampleValidated (VRef 0) ''price'' = Inr (VNum (Fin 50))"
proof -
  have run: "validateRecord exampleStore (VRef 0) = Inr (Valid (VRef 0), exampleValidated)"
    by (simp add: exampleStore_def exampleValidated_def validate_eval number_eval)
  have v: "isValid (Valid (VRef 0))"
    by simp
  have "parseFloat (toFixed2 (Fin (12801 / 256))) = Fin 50"
    by (simp add: number_eval)
  moreover have "getProp exampleStore (VRef 0) ''price'' = Inr (VNum (Fin (12801 / 256)))"
    by (simp add: exampleStore_def heapGet_def lookupProp_def)
  ultimately show ?thesis
    using validateRecord_valid_price_rounded [OF run v] run by auto
qed

text \<open>
  Claim C3, as amended. \<open>validateRecord\<close> returns a valid result only when \<open>price\<close> is a
  number other than NaN. An infinite price passes the price check: the result carries
  no price message and the price stays as it is.
\<close>

theorem validateRecord_price_check:
  assumes "validateRecord h r = Inr (res, h')"
  shows "(isValid res \<longrightarrow> (\<exists>x. getProp h r ''price'' = Inr (VNum x) \<and> x \<noteq> NaN)) \<and>
    (getProp h r ''price'' = Inr (VNum PosInf) \<or> getProp h r ''price'' = Inr (VNum NegInf) \<longrightarrow>
       ''Price is required and must be a number.'' \<notin> set (errorsOf res) \<and>
       getProp h' r ''price'' = getProp h r ''price'')"
proof (cases r)
  case (VRef a)
  from validateRecord_ref_cases [of h a res h'] assms VRef
  consider (rejected) v es where "getProp h r ''price'' = Inr v" "notANumber v" "res = Invalid es"
    | (number) ob ps x where "heapGet h a = Some ob" "propsOf ob = Some ps"
        "lookupProp ps ''price'' = VNum x" "x \<noteq> NaN"
        "h' = h[a := withProps ob (AList.update ''price'' (VNum (parseFloat (toFixed2 x))) ps)]"
        "res = Valid r \<or> (\<exists>es. res = Invalid es \<and>
            ''Price is required and must be a number.'' \<notin> set es)"
    by blast
  then show ?thesis
  proof cases
    case rejected
    then show ?thesis
      by (auto simp: notANumber_def)
  next
    case number
    have before: "getProp h r ''price'' = Inr (VNum x)"
      unfolding VRef using getProp_props [OF number(1,2), of "''price''"] number(3)
      by (simp del: getProp.simps)
    have "a < length h"
      using number(1) by (rule heapGet_length)
    then have after: "getProp h' r ''price'' = Inr (VNum (parseFloat (toFixed2 x)))"
      unfolding VRef number(5) using number(2)
      by (simp add: getProp_withProps lookupProp_update del: getProp.simps)
    from number(6) have "''Price is required and must be a number.'' \<notin> set (errorsOf res)"
      by auto
    with before after number(4) show ?thesis
      by auto
  qed
qed (use assms in \<open>auto simp: validateRecord_def\<close>)

theorem validateRecord_price_check_witness:
  "validateRecord infinitePriceStore (VRef 0) = Inr (Valid (VRef 0), infinitePriceStore) \<and>
   isValid (Valid (VRef 0)) \<and>
   getProp infinitePriceStore (VRef 0) ''price'' = Inr (VNum PosInf) \<and>
   ''Price is required and must be a number.'' \<notin> set (errorsOf (Valid (VRef 0)))"
proof -
  have run: "validateRecord infinitePriceStore (VRef 0) = Inr (Valid (VRef 0), infinitePriceStore)"
    by (simp add: infinitePriceStore_def validate_eval)
  have p: "getProp infinitePriceStore (VRef 0) ''price'' = Inr (VNum PosInf)"
    by (simp add: infinitePriceStore_def heapGet_def lookupProp_def)
  show ?thesis
    using validateRecord_price_check [OF run] run p by simp
qed

text \<open>
  Claim C3, as stated, fails: the record whose price is \<open>Infinity\<close> is accepted.
\<close>

theorem validateRecord_infinite_price_counterexample:
  "getProp infinitePriceStore (VRef 0) ''price'' = Inr (VNum PosInf) \<and>
   validateRecord infinitePriceStore (VRef 0) = Inr (Valid (VRef 0), infinitePriceStore)"
  by (simp add: infinitePriceStore_def validate_eval)

section \<open>\<open>deepCopy\<close> and the frame of the update\<close>

lemma deepCopy_extends:
  shows "deepCopy n h v = Inr (v', h') \<Longrightarrow> \<exists>ys. h' = h @ ys"
    and "deepCopyItems n h vs = Inr (vs', h') \<Longrightarrow> \<exists>ys. h' = h @ ys"
    and "deepCopyProps n h ps = Inr (ps', h') \<Longrightarrow> \<exists>ys. h' = h @ ys"
proof (induction n h v and n h vs and n h ps arbitrary: v' h' and vs' h' and ps' h'
    rule: deepCopy_deepCopyItems_deepCopyProps.induct)
  case (1 h obj)
  then show ?case by simp
next
  case (2 n h obj)
  then show ?case
    by (fastforce simp: alloc_def split: jsval.splits option.splits jsobj.splits sum.splits prod.splits)
next
  case (3 n h)
  then show ?case by simp
next
  case (4 n h item items)
  then show ?case
    by (fastforce split: sum.splits prod.splits)
next
  case (5 n h)
  then show ?case by simp
next
  case (6 n h key v ps)
  then show ?case
    by (fastforce split: sum.splits prod.splits)
qed

lemma deepCopy_fresh: "deepCopy n h v = Inr (VRef c, h') \<Longrightarrow> length h \<le> c"
proof (cases n)
  case 0
  then show "deepCopy n h v = Inr (VRef c, h') \<Longrightarrow> length h \<le> c" by simp
next
  case (Suc m)
  assume run: "deepCopy n h v = Inr (VRef c, h')"
  show "length h \<le> c"
  proof (cases v)
    case (VRef a)
    show ?thesis
    proof (cases "heapGet h a")
      case None
      with run Suc VRef show ?thesis by (simp add: heapGet_def split: if_splits)
    next
      case (Some ob)
      show ?thesis
      proof (cases ob)
        case (PlainObj ps)
        with run Suc VRef Some obtain ps' h1 where "deepCopyProps m h ps = Inr (ps', h1)" "c = length h1"
          by (auto simp: alloc_def split: sum.splits)
        with deepCopy_extends(3) show ?thesis by fastforce
      next
        case (ArrayObj items)
        with run Suc VRef Some obtain xs' h1 where "deepCopyItems m h items = Inr (xs', h1)" "c = length h1"
          by (auto simp: alloc_def split: sum.splits)
        with deepCopy_extends(2) show ?thesis by fastforce
      next
        case (DateObj t)
        with run Suc VRef Some show ?thesis by (auto simp: alloc_def)
      next
        case (RestrictedObj extensible readOnly ps)
        with run Suc VRef Some obtain ps' h1 where "deepCopyProps m h ps = Inr (ps', h1)" "c = length h1"
          by (auto simp: alloc_def split: sum.splits)
        with deepCopy_extends(3) show ?thesis by fastforce
      qed
    qed
  qed (use run Suc in auto)
qed

lemma sameExcept_refl [simp]: "sameExcept c h h"
  by (simp add: sameExcept_def)

lemma sameExcept_trans: "sameExcept c h h' \<Longrightarrow> sameExcept c h' h'' \<Longrightarrow> sameExcept c h h''"
  by (simp add: sameExcept_def)

lemma sameExcept_take: "sameExcept c h h' \<Longrightarrow> n \<le> c \<Longrightarrow> take n h' = take n h"
  by (rule nth_equalityI) (auto simp: sameExcept_def)

lemma setProp_sameExcept: "setProp h (VRef c) k v = Inr h' \<Longrightarrow> sameExcept c h h'"
  by (auto simp: sameExcept_def split: option.splits jsobj.splits if_splits)

lemma setProp_ref: "setProp h r k v = Inr h' \<Longrightarrow> \<exists>c. r = VRef c"
  by (cases r) simp_all

lemma applyChange_cases:
  "applyChange cmp h r kv = Inr h' \<Longrightarrow> h' = h \<or> setProp h r (fst kv) (snd kv) = Inr h'"
  by (auto simp: applyChange_def Let_def bindE_Inr_iff simp del: setProp.simps getProp.simps
      split: if_splits)

lemma applyChange_sameExcept: "applyChange cmp h (VRef c) kv = Inr h' \<Longrightarrow> sameExcept c h h'"
  using applyChange_cases setProp_sameExcept by fastforce

lemma applyChanges_sameExcept: "applyChanges cmp h (VRef c) kvs = Inr h' \<Longrightarrow> sameExcept c h h'"
proof (induction kvs arbitrary: h)
  case Nil
  then show ?case by simp
next
  case (Cons kv kvs)
  then show ?case
    by (auto split: sum.splits dest: applyChange_sameExcept intro: sameExcept_trans)
qed

lemma validateRecord_sameExcept: "validateRecord h (VRef c) = Inr (res, h') \<Longrightarrow> sameExcept c h h'"
  using validateRecord_ref_cases [of h c res h']
  by (auto simp: sameExcept_def)

lemma result_rebuilt:
  "(case vr of Invalid errors \<Rightarrow> Inr (Invalid errors, h5) | Valid r \<Rightarrow> Inr (Valid r, h5))
     = Inr (vr, h5)"
  by (cases vr) simp_all

lemma update_run:
  assumes "updateRecordWithValidation cmp depth now h base updates = Inr (res, h')"
  shows "\<exists>c h1 h3 h4. deepCopy depth h base = Inr (VRef c, h1) \<and>
     setProp (h1 @ [DateObj (Some now)]) (VRef c) ''updatedAt'' (VRef (length h1)) = Inr h3 \<and>
     applyChanges cmp h3 (VRef c) (ownEntries h3 updates) = Inr h4 \<and>
     validateRecord h4 (VRef c) = Inr (res, h')"
proof -
  from assms obtain r h1 where copy: "deepCopy depth h base = Inr (r, h1)"
    and rest1: "bindE (setProp (h1 @ [DateObj (Some now)]) r ''updatedAt'' (VRef (length h1))) (\<lambda>h3.
     bindE (applyChanges cmp h3 r (ownEntries h3 updates)) (\<lambda>h4.
     bindE (validateRecord h4 r) (\<lambda>(validationResult, h5).
       case validationResult of
         Invalid errors \<Rightarrow> Inr (Invalid errors, h5)
       | Valid r \<Rightarrow> Inr (Valid r, h5)))) = Inr (res, h')"
    by (auto simp: updateRecordWithValidation_def bindE_Inr_iff alloc_def)
  from rest1 obtain h3 where
    stamp: "setProp (h1 @ [DateObj (Some now)]) r ''updatedAt'' (VRef (length h1)) = Inr h3"
    and rest2: "bindE (applyChanges cmp h3 r (ownEntries h3 updates)) (\<lambda>h4.
     bindE (validateRecord h4 r) (\<lambda>(validationResult, h5).
       case validationResult of
         Invalid errors \<Rightarrow> Inr (Invalid errors, h5)
       | Valid r \<Rightarrow> Inr (Valid r, h5))) = Inr (res, h')"
    unfolding bindE_Inr_iff by blast
  from rest2 obtain h4 where
    loop: "applyChanges cmp h3 r (ownEntries h3 updates) = Inr h4"
    and rest3: "bindE (validateRecord h4 r) (\<lambda>(validationResult, h5).
       case validationResult of
         Invalid errors \<Rightarrow> Inr (Invalid errors, h5)
       | Valid r \<Rightarrow> Inr (Valid r, h5)) = Inr (res, h')"
    unfolding bindE_Inr_iff by blast
  from rest3 have val: "validateRecord h4 r = Inr (res, h')"
    by (auto simp: bindE_Inr_iff result_rebuilt)
  from stamp obtain c where "r = VRef c"
    using setProp_ref by blast
  with copy stamp loop val show ?thesis
    by blast
qed

lemma update_frame:
  assumes "updateRecordWithValidation cmp depth now h base changes = Inr (res, h')"
  shows "take (length h) h' = h"
proof -
  from update_run [OF assms] obtain c h1 h3 h4 where
    copy: "deepCopy depth h base = Inr (VRef c, h1)"
    and stamp: "setProp (h1 @ [DateObj (Some now)]) (VRef c) ''updatedAt'' (VRef (length h1)) = Inr h3"
    and loop: "applyChanges cmp h3 (VRef c) (ownEntries h3 changes) = Inr h4"
    and val: "validateRecord h4 (VRef c) = Inr (res, h')"
    by blast
  from copy have c: "length h \<le> c"
    by (rule deepCopy_fresh)
  from copy obtain ys where h1: "h1 = h @ ys"
    using deepCopy_extends(1) by blast
  have "sameExcept c (h1 @ [DateObj (Some now)]) h'"
    using stamp loop val
    by (blast intro: sameExcept_trans setProp_sameExcept applyChanges_sameExcept validateRecord_sameExcept)
  then have "take (length h) h' = take (length h) (h1 @ [DateObj (Some now)])"
    using c by (rule sameExcept_take)
  then show ?thesis
    by (simp add: h1)
qed

lemma heapGet_append: "heapGet h a = Some ob \<Longrightarrow> heapGet (h @ ys) a = Some ob"
  by (auto simp: heapGet_def nth_append split: if_splits)

lemma snapshot_extends:
  shows "snapshot n h v = Some c \<Longrightarrow> snapshot n (h @ ys) v = Some c"
    and "snapshotItems n h vs = Some cs \<Longrightarrow> snapshotItems n (h @ ys) vs = Some cs"
    and "snapshotProps n h ps = Some cps \<Longrightarrow> snapshotProps n (h @ ys) ps = Some cps"
proof (induction n h v and n h vs and n h ps arbitrary: c and cs and cps
    rule: snapshot_snapshotItems_snapshotProps.induct)
  case (7 n h a)
  then show ?case
    by (auto simp: heapGet_append split: option.splits jsobj.splits)
next
  case (9 n h v vs)
  then show ?case
    by (auto split: option.splits)
next
  case (11 n h key v ps)
  then show ?case
    by (auto split: option.splits)
qed simp_all

lemmas deepCopy_numeral =
  deepCopy.simps(2) [where n = "pred_numeral k" for k, folded numeral_eq_Suc]

lemmas update_eval = updateRecordWithValidation_def alloc_def deepCopy_numeral applyChange_def
  ownEntries_def sortedTextDiffers_def itemsOf_def nth_append

lemma renameStore_run:
  "updateRecordWithValidation cmpNone 5 1678886400000 renameStore (VRef 0) (VRef 4)
     = Inr (Valid (VRef 8), renamedStore)"
  by (simp add: renamedStore_def renameStore_def exampleStore_def update_eval validate_eval
      number_eval)

lemmas snapshot_numeral =
  snapshot.simps(2-7) [where n = "pred_numeral k" for k, folded numeral_eq_Suc]

lemma exampleStore_content:
  "snapshot 3 (exampleStore @ ys) (VRef 0) = Some (CObject
     [(''id'', CStr ''rec123''), (''name'', CStr ''Test Product''),
      (''price'', CNum (Fin (12801 / 256))),
      (''tags'', CArray [CStr ''electronics'', CStr ''gadget'']),
      (''createdAt'', CDate (Some 1672531200000)),
      (''updatedAt'', CDate (Some 1672531200000))])"
  by (simp add: exampleStore_def snapshot_numeral heapGet_def)

lemma emptyNameStore_run:
  "updateRecordWithValidation cmpNone 5 1678886400000 emptyNameStore (VRef 0) (VRef 4)
     = Inr (Invalid [''Name is required and must be a non-empty string.''], emptyNameAfter)"
  by (simp add: emptyNameAfter_def emptyNameStore_def exampleStore_def update_eval
      validate_eval number_eval)

lemma restampStore_run:
  "updateRecordWithValidation cmpNone 5 1678886400000 restampStore (VRef 0) (VRef 4)
     = Inr (Valid (VRef 9), restampedStore)"
  by (simp add: restampedStore_def restampStore_def exampleStore_def update_eval
      validate_eval number_eval)

section \<open>Effects of the update on the copy\<close>

lemma hasProps_iff:
  "hasProps h c \<longleftrightarrow> (\<exists>ob ps. heapGet h c = Some ob \<and> propsOf ob = Some ps)"
  by (auto simp: hasProps_def split: option.splits)

lemma setProp_effect:
  assumes "setProp h (VRef c) k v = Inr h'"
  shows "hasProps h' c = hasProps h c"
    and "hasProps h c \<Longrightarrow> getProp h' (VRef c) k' = (if k' = k then Inr v else getProp h (VRef c) k')"
  using assms
  by (auto simp: hasProps_def heapGet_def lookupProp_update split: option.splits jsobj.splits if_splits)

lemma applyChange_effect:
  assumes "applyChange cmp h (VRef c) kv = Inr h'"
  shows "hasProps h' c = hasProps h c"
    and "hasProps h c \<Longrightarrow> k' \<noteq> fst kv \<Longrightarrow> getProp h' (VRef c) k' = getProp h (VRef c) k'"
  using applyChange_cases [OF assms] setProp_effect [of h c "fst kv" "snd kv" h']
  by auto

lemma applyChanges_effect:
  assumes "applyChanges cmp h (VRef c) kvs = Inr h'"
  shows "hasProps h' c = hasProps h c"
    and "hasProps h c \<Longrightarrow> k' \<notin> fst ` set kvs \<Longrightarrow> getProp h' (VRef c) k' = getProp h (VRef c) k'"
  using assms
proof (induction kvs arbitrary: h)
  case Nil
  { case 1 then show ?case by simp }
  { case 2 then show ?case by simp }
next
  case (Cons kv kvs)
  { case 1
    then obtain h1 where s: "applyChange cmp h (VRef c) kv = Inr h1" "applyChanges cmp h1 (VRef c) kvs = Inr h'"
      by (auto split: sum.splits)
    with Cons.IH(1) [of h1] applyChange_effect(1) [of cmp h c kv h1] show ?case by simp }
  { case 2
    then obtain h1 where s: "applyChange cmp h (VRef c) kv = Inr h1" "applyChanges cmp h1 (VRef c) kvs = Inr h'"
      by (auto split: sum.splits)
    with Cons.IH(2) [of h1] applyChange_effect [of cmp h c kv h1] 2 show ?case by simp }
qed

lemma validateRecord_effect:
  assumes "validateRecord h (VRef c) = Inr (res, h')"
  shows "isValid res \<Longrightarrow> hasProps h c \<and> res = Valid (VRef c)"
    and "k' \<noteq> ''price'' \<Longrightarrow> getProp h' (VRef c) k' = getProp h (VRef c) k'"
proof -
  from validateRecord_ref_cases [OF assms]
  consider (rejected) es where "res = Invalid es" "h' = h"
    | (number) ob ps x where "heapGet h c = Some ob" "propsOf ob = Some ps"
        "h' = h[c := withProps ob (AList.update ''price'' (VNum (parseFloat (toFixed2 x))) ps)]"
        "res = Valid (VRef c) \<or> (\<exists>es. res = Invalid es)"
    by blast
  then have "(isValid res \<longrightarrow> hasProps h c \<and> res = Valid (VRef c)) \<and>
    (k' \<noteq> ''price'' \<longrightarrow> getProp h' (VRef c) k' = getProp h (VRef c) k')"
  proof cases
    case rejected
    then show ?thesis
      by simp
  next
    case number
    have c: "c < length h"
      using number(1) by (rule heapGet_length)
    have "getProp h' (VRef c) k' = getProp h (VRef c) k'" if "k' \<noteq> ''price''"
      unfolding number(3) getProp_withProps [OF c number(2)] getProp_props [OF number(1,2)]
      using that by (simp add: lookupProp_update)
    moreover have "hasProps h c"
      unfolding hasProps_iff using number(1,2) by blast
    ultimately show ?thesis
      using number(4) by auto
  qed
  then show "isValid res \<Longrightarrow> hasProps h c \<and> res = Valid (VRef c)"
    and "k' \<noteq> ''price'' \<Longrightarrow> getProp h' (VRef c) k' = getProp h (VRef c) k'"
    by blast+
qed


lemma heapGet_sameExcept: "sameExcept c h h' \<Longrightarrow> a \<noteq> c \<Longrightarrow> heapGet h' a = heapGet h a"
  by (auto simp: sameExcept_def heapGet_def)

lemma ownEntries_same:
  "heapGet h' a = heapGet h a \<Longrightarrow> ownEntries h' (VRef a) = ownEntries h (VRef a)"
  by (simp add: ownEntries_def)

lemma ownEntries_frame:
  assumes "allocated h v" and "\<And>a. a < length h \<Longrightarrow> heapGet h' a = heapGet h a"
  shows "ownEntries h' v = ownEntries h v"
  using assms by (cases v) (simp_all add: ownEntries_def allocated_def)

lemma update_run_frame:
  assumes "updateRecordWithValidation cmp depth now h base updates = Inr (res, h')"
  shows "\<exists>c h1 h3 h4 ys. deepCopy depth h base = Inr (VRef c, h1) \<and> h1 = h @ ys \<and> length h \<le> c \<and>
     setProp (h1 @ [DateObj (Some now)]) (VRef c) ''updatedAt'' (VRef (length h1)) = Inr h3 \<and>
     applyChanges cmp h3 (VRef c) (ownEntries h3 updates) = Inr h4 \<and>
     validateRecord h4 (VRef c) = Inr (res, h') \<and>
     sameExcept c (h1 @ [DateObj (Some now)]) h3 \<and> sameExcept c h3 h4 \<and> sameExcept c h4 h'"
proof -
  from update_run [OF assms] obtain c h1 h3 h4 where
    copy: "deepCopy depth h base = Inr (VRef c, h1)"
    and stamp: "setProp (h1 @ [DateObj (Some now)]) (VRef c) ''updatedAt'' (VRef (length h1)) = Inr h3"
    and loop: "applyChanges cmp h3 (VRef c) (ownEntries h3 updates) = Inr h4"
    and val: "validateRecord h4 (VRef c) = Inr (res, h')"
    by blast
  from copy have "length h \<le> c"
    by (rule deepCopy_fresh)
  moreover from copy obtain ys where "h1 = h @ ys"
    using deepCopy_extends(1) by blast
  moreover note copy stamp loop val setProp_sameExcept [OF stamp] applyChanges_sameExcept [OF loop]
    validateRecord_sameExcept [OF val]
  ultimately show ?thesis
    by blast
qed

lemma deepCopy_prim:
  "deepCopy n h v = Inr (v', h') \<Longrightarrow> (\<forall>a. v' \<noteq> VRef a) \<Longrightarrow> v = v'"
  by (cases n; cases v)
    (auto simp: alloc_def split: option.splits jsobj.splits sum.splits)

lemma deepCopy_plain_result:
  assumes "deepCopy n h v = Inr (VRef c, h1)" and "hasProps h1 c"
  shows "\<exists>a ob ps m ps' hp. v = VRef a \<and> heapGet h a = Some ob \<and> propsOf ob = Some ps \<and>
    n = Suc m \<and> deepCopyProps m h ps = Inr (ps', hp) \<and> h1 = hp @ [PlainObj ps'] \<and> c = length hp"
  using assms
  by (cases n; cases v)
    (auto simp: alloc_def hasProps_iff heapGet_def
      split: option.splits jsobj.splits sum.splits if_splits)

lemma deepCopy_snapshot:
  shows "deepCopy m h v = Inr (v', h') \<Longrightarrow> snapshot n h v = Some c \<Longrightarrow> snapshot n h' v' = Some c"
    and "deepCopyItems m h vs = Inr (vs', h') \<Longrightarrow> snapshotItems n h vs = Some cs
      \<Longrightarrow> snapshotItems n h' vs' = Some cs"
    and "deepCopyProps m h ps = Inr (ps', h') \<Longrightarrow> snapshotProps n h ps = Some cps
      \<Longrightarrow> snapshotProps n h' ps' = Some cps"
proof (induction m h v and m h vs and m h ps arbitrary: v' h' n c and vs' h' n cs and ps' h' n cps
    rule: deepCopy_deepCopyItems_deepCopyProps.induct)
  case (1 h obj)
  then show ?case by simp
next
  case (2 m h obj)
  show ?case
  proof (cases obj)
    case (VRef a)
    from "2.prems"(2) obtain k where n: "n = Suc k"
      by (cases n) simp_all
    from "2.prems"(2) obtain ob where ob: "heapGet h a = Some ob"
      by (auto simp: VRef n split: option.splits)
    show ?thesis
    proof (cases ob)
      case (PlainObj ps)
      from "2.prems"(1) obtain ps' hp where
        cp: "deepCopyProps m h ps = Inr (ps', hp)" and res: "v' = VRef (length hp)" "h' = hp @ [PlainObj ps']"
        by (auto simp: VRef ob PlainObj alloc_def split: sum.splits)
      from "2.prems"(2) obtain cps where
        sp: "snapshotProps k h ps = Some cps" and c: "c = CObject cps"
        by (auto simp: VRef ob PlainObj n)
      have "snapshotProps k hp ps' = Some cps"
        using "2.IH"(1) [OF VRef ob PlainObj cp sp] .
      then have "snapshotProps k h' ps' = Some cps"
        unfolding res by (rule snapshot_extends(3))
      then show ?thesis
        by (simp add: res n c heapGet_def)
    next
      case (ArrayObj items)
      from "2.prems"(1) obtain items' hp where
        cp: "deepCopyItems m h items = Inr (items', hp)" and res: "v' = VRef (length hp)" "h' = hp @ [ArrayObj items']"
        by (auto simp: VRef ob ArrayObj alloc_def split: sum.splits)
      from "2.prems"(2) obtain cs where
        sp: "snapshotItems k h items = Some cs" and c: "c = CArray cs"
        by (auto simp: VRef ob ArrayObj n)
      have "snapshotItems k hp items' = Some cs"
        using "2.IH"(2) [OF VRef ob ArrayObj cp sp] .
      then have "snapshotItems k h' items' = Some cs"
        unfolding res by (rule snapshot_extends(2))
      then show ?thesis
        by (simp add: res n c heapGet_def)
    next
      case (DateObj t)
      from "2.prems"(1) have "v' = VRef (length h)" "h' = h @ [DateObj t]"
        by (auto simp: VRef ob DateObj alloc_def)
      moreover from "2.prems"(2) have "c = CDate t"
        by (auto simp: VRef ob DateObj n)
      ultimately show ?thesis
        by (simp add: n heapGet_def)
    next
      case (RestrictedObj extensible readOnly ps)
      from "2.prems"(1) obtain ps' hp where
        cp: "deepCopyProps m h ps = Inr (ps', hp)" and res: "v' = VRef (length hp)" "h' = hp @ [PlainObj ps']"
        by (auto simp: VRef ob RestrictedObj alloc_def split: sum.splits)
      from "2.prems"(2) obtain cps where
        sp: "snapshotProps k h ps = Some cps" and c: "c = CObject cps"
        by (auto simp: VRef ob RestrictedObj n)
      have "snapshotProps k hp ps' = Some cps"
        using "2.IH"(3) [OF VRef ob RestrictedObj cp sp] .
      then have "snapshotProps k h' ps' = Some cps"
        unfolding res by (rule snapshot_extends(3))
      then show ?thesis
        by (simp add: res n c heapGet_def)
    qed
  qed (use "2.prems" in auto)
next
  case (3 m h)
  then show ?case by simp
next
  case (4 m h item items)
  from "4.prems"(1) obtain item' h1 items' where
    c1: "deepCopy m h item = Inr (item', h1)" and c2: "deepCopyItems m h1 items = Inr (items', h')"
    and vs': "vs' = item' # items'"
    by (auto split: sum.splits)
  from "4.prems"(2) obtain c0 cs0 where
    s1: "snapshot n h item = Some c0" and s2: "snapshotItems n h items = Some cs0" and cs: "cs = c0 # cs0"
    by (auto split: option.splits)
  obtain ys where h1: "h1 = h @ ys"
    using deepCopy_extends(1) [OF c1] by blast
  obtain zs where h': "h' = h1 @ zs"
    using deepCopy_extends(2) [OF c2] by blast
  have "snapshot n h1 item' = Some c0"
    using "4.IH"(1) [OF c1 s1] .
  then have a: "snapshot n h' item' = Some c0"
    unfolding h' by (rule snapshot_extends(1))
  have "snapshotItems n h1 items = Some cs0"
    using s2 unfolding h1 by (rule snapshot_extends(2))
  then have "snapshotItems n h' items' = Some cs0"
    using "4.IH"(2) [OF c1 refl c2] by blast
  with a show ?case
    by (simp add: vs' cs)
next
  case (5 m h)
  then show ?case by simp
next
  case (6 m h key v ps)
  from "6.prems"(1) obtain w h1 qs where
    c1: "deepCopy m h v = Inr (w, h1)" and c2: "deepCopyProps m h1 ps = Inr (qs, h')"
    and ps': "ps' = (key, w) # qs"
    by (auto split: sum.splits)
  from "6.prems"(2) obtain c0 cs0 where
    s1: "snapshot n h v = Some c0" and s2: "snapshotProps n h ps = Some cs0" and cps: "cps = (key, c0) # cs0"
    by (auto split: option.splits)
  obtain ys where h1: "h1 = h @ ys"
    using deepCopy_extends(1) [OF c1] by blast
  obtain zs where h': "h' = h1 @ zs"
    using deepCopy_extends(3) [OF c2] by blast
  have "snapshot n h1 w = Some c0"
    using "6.IH"(1) [OF c1 s1] .
  then have a: "snapshot n h' w = Some c0"
    unfolding h' by (rule snapshot_extends(1))
  have "snapshotProps n h1 ps = Some cs0"
    using s2 unfolding h1 by (rule snapshot_extends(3))
  then have "snapshotProps n h' qs = Some cs0"
    using "6.IH"(2) [OF c1 refl c2] by blast
  with a show ?case
    by (simp add: ps' cps)
qed

lemma validateId_pass:
  "validateId h (VRef a) es = Inr es' \<Longrightarrow>
     es' = es \<longleftrightarrow> (\<exists>s. getProp h (VRef a) ''id'' = Inr (VStr s) \<and> trim s \<noteq> [])"
  using getProp_ref [of h a "''id''"]
  by (auto simp: validateId_def trimCall_def split: jsval.splits if_splits)

lemma validateName_pass:
  "validateName h (VRef a) es = Inr es' \<Longrightarrow>
     es' = es \<longleftrightarrow> (\<exists>s. getProp h (VRef a) ''name'' = Inr (VStr s) \<and> trim s \<noteq> [])"
  using getProp_ref [of h a "''name''"]
  by (auto simp: validateName_def trimCall_def split: jsval.splits if_splits)

lemma validateTags_pass:
  "validateTags h (VRef a) es = Inr es' \<Longrightarrow>
     es' = es \<longleftrightarrow> (\<exists>t items. getProp h (VRef a) ''tags'' = Inr (VRef t) \<and>
        heapGet h t = Some (ArrayObj items) \<and> \<not> list_ex badTag items)"
  using getProp_ref [of h a "''tags''"]
  by (auto simp: validateTags_def isArray_def someCall_def
      split: jsval.splits option.splits jsobj.splits if_splits)

text \<open>What a valid result says about the candidate, and conversely.\<close>

lemma validateRecord_valid_iff:
  "(\<exists>r h'. validateRecord h (VRef a) = Inr (Valid r, h')) \<longleftrightarrow>
   (\<exists>ob ps i nm x t items.
      heapGet h a = Some ob \<and> propsOf ob = Some ps \<and> accepts ob ''price'' \<and>
      lookupProp ps ''id'' = VStr i \<and> trim i \<noteq> [] \<and>
      lookupProp ps ''name'' = VStr nm \<and> trim nm \<noteq> [] \<and>
      lookupProp ps ''price'' = VNum x \<and> x \<noteq> NaN \<and>
      lookupProp ps ''tags'' = VRef t \<and> t \<noteq> a \<and>
      heapGet h t = Some (ArrayObj items) \<and> \<not> list_ex badTag items)"
  (is "?L \<longleftrightarrow> ?R")
proof -
  obtain e1 where e1: "validateId h (VRef a) [] = Inr ([] @ e1)"
    using validateId_ref by blast
  obtain e2 where e2: "validateName h (VRef a) ([] @ e1) = Inr (([] @ e1) @ e2)"
    using validateName_ref by blast
  obtain v where v: "getProp h (VRef a) ''price'' = Inr v"
    using getProp_ref by blast
  show ?thesis
  proof (cases "notANumber v")
    case True
    have none: "\<not> (\<exists>ob ps x. heapGet h a = Some ob \<and> propsOf ob = Some ps \<and>
        lookupProp ps ''price'' = VNum x \<and> x \<noteq> NaN)"
    proof
      assume "\<exists>ob ps x. heapGet h a = Some ob \<and> propsOf ob = Some ps \<and>
        lookupProp ps ''price'' = VNum x \<and> x \<noteq> NaN"
      then obtain ob ps x where "heapGet h a = Some ob" "propsOf ob = Some ps"
        "lookupProp ps ''price'' = VNum x" "x \<noteq> NaN"
        by blast
      with v True getProp_props [of h a ob ps "''price''"] show False
        by (auto simp: notANumber_def simp del: getProp.simps)
    qed
    have "\<not> ?L"
    proof
      assume ?L
      then obtain r h' where "validateRecord h (VRef a) = Inr (Valid r, h')"
        by blast
      from validateRecord_ref_cases [OF this] none show False
        by blast
    qed
    moreover have "\<not> ?R"
      using none by blast
    ultimately show ?thesis by blast
  next
    case False
    then obtain x where x: "v = VNum x" "x \<noteq> NaN"
      using not_notANumber by blast
    obtain ob ps where ps: "heapGet h a = Some ob" "propsOf ob = Some ps"
      "lookupProp ps ''price'' = VNum x"
      using getProp_number v x by blast
    note price = validatePrice_number [OF ps x(2), of "([] @ e1) @ e2"]
    show ?thesis
    proof (cases "accepts ob ''price''")
      case refused: False
      with price have "validatePrice h (VRef a) (([] @ e1) @ e2) = Inl TypeError"
        by simp
      then have "validateRecord h (VRef a) = Inl TypeError"
        using e1 e2 by (simp add: validateRecord_def)
      then have "\<not> ?L"
        by simp
      moreover have "\<not> ?R"
        using ps(1) refused by auto
      ultimately show ?thesis by blast
    next
      case True
      let ?h' = "h[a := withProps ob (AList.update ''price'' (VNum (parseFloat (toFixed2 x))) ps)]"
      have e3: "validatePrice h (VRef a) (([] @ e1) @ e2) = Inr (([] @ e1) @ e2, ?h')"
        using price True by simp
      obtain e4 where e4: "validateTags ?h' (VRef a) (([] @ e1) @ e2) = Inr ((([] @ e1) @ e2) @ e4)"
        using validateTags_ref by blast
      have run: "validateRecord h (VRef a) =
          (if length (e1 @ e2 @ e4) > 0 then Inr (Invalid (e1 @ e2 @ e4), ?h')
           else Inr (Valid (VRef a), ?h'))"
        using e1 e2 e3 e4 by (simp add: validateRecord_def)
      have a: "a < length h"
        using ps(1) by (rule heapGet_length)
      note get = getProp_props [OF ps(1,2)]
      have p1: "e1 = [] \<longleftrightarrow> (\<exists>s. lookupProp ps ''id'' = VStr s \<and> trim s \<noteq> [])"
        using validateId_pass [OF e1] by (simp add: get del: getProp.simps)
      have p2: "e2 = [] \<longleftrightarrow> (\<exists>s. lookupProp ps ''name'' = VStr s \<and> trim s \<noteq> [])"
        using validateName_pass [OF e2] by (simp add: get del: getProp.simps)
      have tags': "getProp ?h' (VRef a) ''tags'' = Inr (lookupProp ps ''tags'')"
        using a ps(2) by (simp add: getProp_withProps lookupProp_update del: getProp.simps)
      have "\<And>items. withProps ob qs \<noteq> ArrayObj items" for qs
        using ps(2) by (cases ob) simp_all
      then have get': "heapGet ?h' t = Some (ArrayObj items) \<longleftrightarrow>
          t \<noteq> a \<and> heapGet h t = Some (ArrayObj items)" for t items
        using a by (cases "t = a") (auto simp: heapGet_def)
      have p4: "e4 = [] \<longleftrightarrow> (\<exists>t items. lookupProp ps ''tags'' = VRef t \<and> t \<noteq> a \<and>
          heapGet h t = Some (ArrayObj items) \<and> \<not> list_ex badTag items)"
        using validateTags_pass [OF e4] by (simp add: tags' get' del: getProp.simps)
      have "?L \<longleftrightarrow> e1 = [] \<and> e2 = [] \<and> e4 = []"
        by (auto simp: run)
      also have "\<dots> \<longleftrightarrow> ?R"
        unfolding p1 p2 p4 using ps x(2) True by auto
      finally show ?thesis .
    qed
  qed
qed

lemma deepCopyProps_lookup:
  assumes "deepCopyProps m h ps = Inr (ps', h')"
  shows "(lookupProp ps k = VUndefined \<and> lookupProp ps' k = VUndefined) \<or>
    (\<exists>ys hB zs. deepCopy m (h @ ys) (lookupProp ps k) = Inr (lookupProp ps' k, hB) \<and> h' = hB @ zs)"
  using assms
proof (induction ps arbitrary: h ps')
  case Nil
  then show ?case
    by (simp add: lookupProp_def)
next
  case (Cons p ps)
  obtain key v where p: "p = (key, v)"
    by (cases p)
  from Cons.prems obtain w h1 qs where
    c1: "deepCopy m h v = Inr (w, h1)" and c2: "deepCopyProps m h1 ps = Inr (qs, h')"
    and ps': "ps' = (key, w) # qs"
    by (auto simp: p split: sum.splits)
  obtain ys where h1: "h1 = h @ ys"
    using deepCopy_extends(1) [OF c1] by blast
  obtain zs where h': "h' = h1 @ zs"
    using deepCopy_extends(3) [OF c2] by blast
  show ?case
  proof (cases "k = key")
    case True
    have "deepCopy m (h @ []) (lookupProp (p # ps) k) = Inr (lookupProp ps' k, h1)"
      using c1 by (simp add: True p ps' lookupProp_def)
    with h' show ?thesis
      by blast
  next
    case False
    from Cons.IH [OF c2] False show ?thesis
      by (auto simp: p ps' lookupProp_def h1)
  qed
qed

lemma update_valid_structure:
  assumes run: "updateRecordWithValidation cmp depth now h base changes = Inr (Valid r, h')"
    and ch: "allocated h changes"
  shows "\<exists>a ob ps m ps' hp zs h4. base = VRef a \<and> heapGet h a = Some ob \<and>
    propsOf ob = Some ps \<and>
    depth = Suc m \<and> deepCopyProps m h ps = Inr (ps', hp) \<and> r = VRef (length hp) \<and>
    h' = hp @ zs \<and> validateRecord h4 r = Inr (Valid r, h') \<and>
    (\<forall>k. k \<notin> fst ` set (ownEntries h changes) \<longrightarrow> k \<noteq> ''updatedAt'' \<longrightarrow>
       k \<noteq> ''price'' \<longrightarrow> getProp h' r k = Inr (lookupProp ps' k))"
proof -
  from update_run_frame [OF run] obtain c h1 h3 h4 ys where
    copy: "deepCopy depth h base = Inr (VRef c, h1)"
    and h1: "h1 = h @ ys" and c: "length h \<le> c"
    and stamp: "setProp (h1 @ [DateObj (Some now)]) (VRef c) ''updatedAt'' (VRef (length h1)) = Inr h3"
    and loop: "applyChanges cmp h3 (VRef c) (ownEntries h3 changes) = Inr h4"
    and val: "validateRecord h4 (VRef c) = Inr (Valid r, h')"
    and s23: "sameExcept c (h1 @ [DateObj (Some now)]) h3"
    and s34: "sameExcept c h3 h4" and s45: "sameExcept c h4 h'"
    by blast
  let ?h2 = "h1 @ [DateObj (Some now)]"
  have r: "r = VRef c" and plain4: "hasProps h4 c"
    using validateRecord_effect(1) [OF val] by simp_all
  have plain3: "hasProps h3 c"
    using applyChanges_effect(1) [OF loop] plain4 by simp
  have plain2: "hasProps ?h2 c"
    using setProp_effect(1) [OF stamp] plain3 by simp
  then have c1: "c < length h1" and plain1: "hasProps h1 c"
    by (auto simp: hasProps_iff heapGet_def nth_append split: if_splits)
  from deepCopy_plain_result [OF copy plain1] obtain a ob ps m ps' hp where
    base: "base = VRef a" "heapGet h a = Some ob" "propsOf ob = Some ps" "depth = Suc m"
    and props: "deepCopyProps m h ps = Inr (ps', hp)"
    and hp: "h1 = hp @ [PlainObj ps']" "c = length hp"
    by blast
  have "heapGet h3 x = heapGet h x" if "x < length h" for x
  proof -
    from that c have "x \<noteq> c"
      by simp
    moreover have "heapGet ?h2 x = heapGet h x"
      using that by (simp add: h1 heapGet_def nth_append)
    ultimately show ?thesis
      using heapGet_sameExcept [OF s23] by simp
  qed
  with ch have entries: "ownEntries h3 changes = ownEntries h changes"
    by (rule ownEntries_frame)
  have g2: "getProp ?h2 (VRef c) k = Inr (lookupProp ps' k)" for k
    by (simp add: hp heapGet_def nth_append)
  have keep: "getProp h' r k = Inr (lookupProp ps' k)"
    if "k \<notin> fst ` set (ownEntries h changes)" "k \<noteq> ''updatedAt''" "k \<noteq> ''price''" for k
  proof -
    have "getProp h3 (VRef c) k = getProp ?h2 (VRef c) k"
      using setProp_effect(2) [OF stamp plain2] that(2) by simp
    moreover have "getProp h4 (VRef c) k = getProp h3 (VRef c) k"
      using applyChanges_effect(2) [OF loop plain3] that(1) entries by simp
    moreover have "getProp h' (VRef c) k = getProp h4 (VRef c) k"
      using validateRecord_effect(2) [OF val] that(3) by simp
    ultimately show ?thesis
      using g2 by (simp add: r)
  qed
  have "sameExcept c ?h2 h'"
    using s23 s34 s45 by (blast intro: sameExcept_trans)
  then have "take c h' = take c ?h2"
    by (rule sameExcept_take) simp
  then have "take (length hp) h' = hp"
    by (simp add: hp)
  then have "h' = hp @ drop (length hp) h'"
    by (metis append_take_drop_id)
  with base props keep val show ?thesis
    unfolding r hp(2) by blast
qed

lemma snapshot_prim: "(\<forall>a. v \<noteq> VRef a) \<Longrightarrow> snapshot n h' v = snapshot n h v"
  by (cases n; cases v) simp_all


lemma deepCopy_total:
  shows "snapshot n h v = Some c \<Longrightarrow> \<exists>v' h'. deepCopy n h v = Inr (v', h')"
    and "snapshotItems n h vs = Some cs \<Longrightarrow> \<exists>vs' h'. deepCopyItems n h vs = Inr (vs', h')"
    and "snapshotProps n h ps = Some cps \<Longrightarrow> \<exists>ps' h'. deepCopyProps n h ps = Inr (ps', h')"
proof (induction n h v and n h vs and n h ps arbitrary: c and cs and cps
    rule: deepCopy_deepCopyItems_deepCopyProps.induct)
  case (1 h obj)
  then show ?case by simp
next
  case (2 n h obj)
  show ?case
  proof (cases obj)
    case (VRef a)
    from "2.prems" obtain ob where ob: "heapGet h a = Some ob"
      by (auto simp: VRef split: option.splits)
    show ?thesis
    proof (cases ob)
      case (PlainObj ps)
      from "2.prems" obtain cps where "snapshotProps n h ps = Some cps"
        by (auto simp: VRef ob PlainObj)
      from "2.IH"(1) [OF VRef ob PlainObj this] show ?thesis
        by (auto simp: VRef ob PlainObj)
    next
      case (ArrayObj items)
      from "2.prems" obtain cs where "snapshotItems n h items = Some cs"
        by (auto simp: VRef ob ArrayObj)
      from "2.IH"(2) [OF VRef ob ArrayObj this] show ?thesis
        by (auto simp: VRef ob ArrayObj)
    next
      case (DateObj t)
      then show ?thesis
        by (simp add: VRef ob)
    next
      case (RestrictedObj extensible readOnly ps)
      from "2.prems" obtain cps where "snapshotProps n h ps = Some cps"
        by (auto simp: VRef ob RestrictedObj)
      from "2.IH"(3) [OF VRef ob RestrictedObj this] show ?thesis
        by (auto simp: VRef ob RestrictedObj)
    qed
  qed simp_all
next
  case (3 n h)
  then show ?case by simp
next
  case (4 n h item items)
  from "4.prems" obtain c0 cs0 where
    s1: "snapshot n h item = Some c0" and s2: "snapshotItems n h items = Some cs0"
    by (auto split: option.splits)
  from "4.IH"(1) [OF s1] obtain item' h1 where c1: "deepCopy n h item = Inr (item', h1)"
    by blast
  obtain ys where h1: "h1 = h @ ys"
    using deepCopy_extends(1) [OF c1] by blast
  have "snapshotItems n h1 items = Some cs0"
    using s2 unfolding h1 by (rule snapshot_extends(2))
  from "4.IH"(2) [OF c1 refl this] show ?case
    by (auto simp: c1)
next
  case (5 n h)
  then show ?case by simp
next
  case (6 n h key v ps)
  from "6.prems" obtain c0 cs0 where
    s1: "snapshot n h v = Some c0" and s2: "snapshotProps n h ps = Some cs0"
    by (auto split: option.splits)
  from "6.IH"(1) [OF s1] obtain w h1 where c1: "deepCopy n h v = Inr (w, h1)"
    by blast
  obtain ys where h1: "h1 = h @ ys"
    using deepCopy_extends(1) [OF c1] by blast
  have "snapshotProps n h1 ps = Some cs0"
    using s2 unfolding h1 by (rule snapshot_extends(3))
  from "6.IH"(2) [OF c1 refl this] show ?case
    by (auto simp: c1)
qed

lemma deepCopy_of_prim:
  "deepCopy m h v = Inr (v', h') \<Longrightarrow> (\<forall>a. v \<noteq> VRef a) \<Longrightarrow> v' = v"
  by (cases m; cases v) auto

lemma deepCopy_two_strings:
  assumes "deepCopy m h (VRef t) = Inr (v', h')"
    and "heapGet h t = Some (ArrayObj [VStr s1, VStr s2])"
  shows "v' = VRef (length h) \<and> h' = h @ [ArrayObj [VStr s1, VStr s2]]"
proof -
  from assms obtain k where m: "m = Suc k"
    by (cases m) simp_all
  from assms obtain j where k: "k = Suc j"
    by (cases k) (simp_all add: m)
  from assms show ?thesis
    by (simp add: m k alloc_def)
qed

lemma sort_b_a: "sort [''b'', ''a''] = [''a'', ''b'']" "sort [''a'', ''b''] = [''a'', ''b'']"
  by simp_all

lemma applyChange_same_tags:
  assumes "heapGet h c = Some (PlainObj ps)" and "lookupProp ps ''tags'' = VRef t'"
    and "heapGet h t' = Some (ArrayObj [VStr ''a'', VStr ''b''])"
    and "heapGet h t2 = Some (ArrayObj [VStr ''b'', VStr ''a''])"
  shows "applyChange cmp h (VRef c) (''tags'', VRef t2) = Inr h"
  unfolding applyChange_def
  by (simp add: assms isArray_def sortedTextDiffers_def itemsOf_def sort_b_a
      del: sort_key_simps)

lemma update_steps:
  assumes "deepCopy depth h base = Inr (r, h1)"
    and "setProp (h1 @ [DateObj (Some now)]) r ''updatedAt'' (VRef (length h1)) = Inr h3"
    and "applyChanges cmp h3 r (ownEntries h3 updates) = Inr h4"
    and "validateRecord h4 r = Inr (res, h5)"
  shows "updateRecordWithValidation cmp depth now h base updates = Inr (res, h5)"
  using assms by (simp add: updateRecordWithValidation_def alloc_def result_rebuilt)


section \<open>Properties of \<open>updateRecordWithValidation\<close>\<close>

text \<open>
  Claim C1. A call of \<open>updateRecordWithValidation\<close> that returns, with a valid or an
  invalid result, has written to no object that existed before the call: the store
  before the call is an initial segment of the store after it. In particular the base
  record deep-equals what it was: whatever content can be read from it before the call,
  through nested objects, arrays and dates, is read from it afterwards.
\<close>

theorem update_never_mutates_base:
  assumes "updateRecordWithValidation cmp depth now h base changes = Inr (res, h')"
  shows "take (length h) h' = h \<and>
    (\<forall>n c. snapshot n h base = Some c \<longrightarrow> snapshot n h' base = Some c)"
proof -
  have frame: "take (length h) h' = h"
    using assms by (rule update_frame)
  then have "h' = h @ drop (length h) h'"
    by (metis append_take_drop_id)
  then have "snapshot n h' base = Some c" if "snapshot n h base = Some c" for n c
    using snapshot_extends(1) [OF that] by metis
  with frame show ?thesis
    by blast
qed

text \<open>
  An accepted and a rejected update of the test suite's record: in both the five objects
  of the store are untouched and the record reads as before.
\<close>

theorem update_never_mutates_base_witness:
  "updateRecordWithValidation cmpNone 5 1678886400000 renameStore (VRef 0) (VRef 4)
     = Inr (Valid (VRef 8), renamedStore) \<and>
   take (length renameStore) renamedStore = renameStore \<and>
   snapshot 3 renameStore (VRef 0) = snapshot 3 renamedStore (VRef 0) \<and>
   updateRecordWithValidation cmpNone 5 1678886400000 emptyNameStore (VRef 0) (VRef 4)
     = Inr (Invalid [''Name is required and must be a non-empty string.''], emptyNameAfter) \<and>
   take (length emptyNameStore) emptyNameAfter = emptyNameStore \<and>
   snapshot 3 emptyNameStore (VRef 0) = snapshot 3 emptyNameAfter (VRef 0)"
proof -
  have a: "snapshot 3 renameStore (VRef 0) = Some (CObject
     [(''id'', CStr ''rec123''), (''name'', CStr ''Test Product''),
      (''price'', CNum (Fin (12801 / 256))),
      (''tags'', CArray [CStr ''electronics'', CStr ''gadget'']),
      (''createdAt'', CDate (Some 1672531200000)),
      (''updatedAt'', CDate (Some 1672531200000))])"
    unfolding renameStore_def by (rule exampleStore_content)
  have b: "snapshot 3 emptyNameStore (VRef 0) = Some (CObject
     [(''id'', CStr ''rec123''), (''name'', CStr ''Test Product''),
      (''price'', CNum (Fin (12801 / 256))),
      (''tags'', CArray [CStr ''electronics'', CStr ''gadget'']),
      (''createdAt'', CDate (Some 1672531200000)),
      (''updatedAt'', CDate (Some 1672531200000))])"
    unfolding emptyNameStore_def by (rule exampleStore_content)
  show ?thesis
    using update_never_mutates_base [OF renameStore_run]
      update_never_mutates_base [OF emptyNameStore_run]
      renameStore_run emptyNameStore_run a b
    by simp
qed

text \<open>
  Claim C4, as amended. When the change set has no \<open>updatedAt\<close> key of its own, the
  record returned by a successful update has, as its \<open>updatedAt\<close>, a \<open>Date\<close> holding
  the time of the call, whatever other keys the change set has and also when it is
  empty.
\<close>

theorem update_stamps_updatedAt:
  assumes run: "updateRecordWithValidation cmp depth now h base changes = Inr (Valid r, h')"
    and ch: "allocated h changes"
    and key: "''updatedAt'' \<notin> fst ` set (ownEntries h changes)"
  shows "\<exists>d. getProp h' r ''updatedAt'' = Inr (VRef d) \<and> heapGet h' d = Some (DateObj (Some now))"
proof -
  from update_run_frame [OF run] obtain c h1 h3 h4 ys where
    h1: "h1 = h @ ys" and c: "length h \<le> c"
    and stamp: "setProp (h1 @ [DateObj (Some now)]) (VRef c) ''updatedAt'' (VRef (length h1)) = Inr h3"
    and loop: "applyChanges cmp h3 (VRef c) (ownEntries h3 changes) = Inr h4"
    and val: "validateRecord h4 (VRef c) = Inr (Valid r, h')"
    and s23: "sameExcept c (h1 @ [DateObj (Some now)]) h3"
    and s34: "sameExcept c h3 h4" and s45: "sameExcept c h4 h'"
    by blast
  let ?h2 = "h1 @ [DateObj (Some now)]"
  let ?d = "length h1"
  have r: "r = VRef c" and plain4: "hasProps h4 c"
    using validateRecord_effect(1) [OF val] by simp_all
  have plain3: "hasProps h3 c"
    using applyChanges_effect(1) [OF loop] plain4 by simp
  have plain2: "hasProps ?h2 c"
    using setProp_effect(1) [OF stamp] plain3 by simp
  have date2: "heapGet ?h2 ?d = Some (DateObj (Some now))"
    by (simp add: heapGet_def)
  with plain2 have cd: "?d \<noteq> c"
    by (auto simp: hasProps_iff)
  have "heapGet h3 x = heapGet h x" if "x < length h" for x
  proof -
    from that c have "x \<noteq> c"
      by simp
    moreover have "heapGet ?h2 x = heapGet h x"
      using that by (simp add: h1 heapGet_def nth_append)
    ultimately show ?thesis
      using heapGet_sameExcept [OF s23] by simp
  qed
  with ch have entries: "ownEntries h3 changes = ownEntries h changes"
    by (rule ownEntries_frame)
  with loop key have "getProp h4 (VRef c) ''updatedAt'' = getProp h3 (VRef c) ''updatedAt''"
    using applyChanges_effect(2) [of cmp h3 c "ownEntries h changes" h4 "''updatedAt''"] plain3
    by simp
  moreover have "getProp h3 (VRef c) ''updatedAt'' = Inr (VRef ?d)"
    using setProp_effect(2) [OF stamp plain2] by simp
  moreover have "getProp h' (VRef c) ''updatedAt'' = getProp h4 (VRef c) ''updatedAt''"
    using validateRecord_effect(2) [OF val] by simp
  ultimately have "getProp h' r ''updatedAt'' = Inr (VRef ?d)"
    by (simp add: r)
  moreover have "heapGet h' ?d = Some (DateObj (Some now))"
    using heapGet_sameExcept [OF s23 cd] heapGet_sameExcept [OF s34 cd]
      heapGet_sameExcept [OF s45 cd] date2 by simp
  ultimately show ?thesis
    by blast
qed

theorem update_stamps_updatedAt_witness:
  "updateRecordWithValidation cmpNone 5 1678886400000 renameStore (VRef 0) (VRef 4)
     = Inr (Valid (VRef 8), renamedStore) \<and>
   allocated renameStore (VRef 4) \<and>
   ownEntries renameStore (VRef 4) = [(''name'', VStr ''New Name'')] \<and>
   ''updatedAt'' \<notin> fst ` set (ownEntries renameStore (VRef 4)) \<and>
   getProp renamedStore (VRef 8) ''updatedAt'' = Inr (VRef 9) \<and>
   heapGet renamedStore 9 = Some (DateObj (Some 1678886400000))"
proof -
  have ch: "allocated renameStore (VRef 4)"
    by (simp add: renameStore_def exampleStore_def allocated_def)
  have entries: "ownEntries renameStore (VRef 4) = [(''name'', VStr ''New Name'')]"
    by (simp add: renameStore_def exampleStore_def ownEntries_def heapGet_def)
  have key: "''updatedAt'' \<notin> fst ` set (ownEntries renameStore (VRef 4))"
    by (simp add: entries)
  have "getProp renamedStore (VRef 8) ''updatedAt'' = Inr (VRef 9)"
    by (simp add: renamedStore_def renameStore_def exampleStore_def heapGet_def lookupProp_def)
  moreover have "heapGet renamedStore 9 = Some (DateObj (Some 1678886400000))"
    by (simp add: renamedStore_def renameStore_def exampleStore_def heapGet_def)
  ultimately show ?thesis
    using update_stamps_updatedAt [OF renameStore_run ch key] renameStore_run ch key entries
    by simp
qed

text \<open>
  Claim C4, as stated, fails: with the change set \<open>{updatedAt: new Date(0)}\<close> the update
  succeeds and the record returned carries the date of the change set, not the time of
  the call.
\<close>

theorem update_updatedAt_counterexample:
  "updateRecordWithValidation cmpNone 5 1678886400000 restampStore (VRef 0) (VRef 4)
     = Inr (Valid (VRef 9), restampedStore) \<and>
   getProp restampedStore (VRef 9) ''updatedAt'' = Inr (VRef 5) \<and>
   heapGet restampedStore 5 = Some (DateObj (Some 0))"
  by (simp add: restampStore_run)
    (simp add: restampedStore_def restampStore_def exampleStore_def heapGet_def lookupProp_def)

lemma reidStore_run:
  "updateRecordWithValidation cmpNone 5 1678886400000 reidStore (VRef 0) (VRef 4)
     = Inr (Valid (VRef 9), reidAfter)"
  by (simp add: reidAfter_def reidStore_def exampleStore_def update_eval
      validate_eval number_eval)

text \<open>
  Claim C2, as amended. When the change set has neither an \<open>id\<close> nor a \<open>createdAt\<close>
  key of its own, the record returned by a successful update has the \<open>id\<close> of the
  base record, and its \<open>createdAt\<close> is a copy with the content of the base record's
  \<open>createdAt\<close>.
\<close>

theorem update_keeps_id_and_createdAt:
  assumes run: "updateRecordWithValidation cmp depth now h base changes = Inr (Valid r, h')"
    and ch: "allocated h changes"
    and no_id: "''id'' \<notin> fst ` set (ownEntries h changes)"
    and no_createdAt: "''createdAt'' \<notin> fst ` set (ownEntries h changes)"
  shows "getProp h' r ''id'' = getProp h base ''id'' \<and>
    (\<exists>v v'. getProp h base ''createdAt'' = Inr v \<and> getProp h' r ''createdAt'' = Inr v' \<and>
      (\<forall>n c. snapshot n h v = Some c \<longrightarrow> snapshot n h' v' = Some c))"
proof -
  from update_valid_structure [OF run ch] obtain a ob ps m ps' hp zs h4 where
    base: "base = VRef a" "heapGet h a = Some ob" "propsOf ob = Some ps"
    and props: "deepCopyProps m h ps = Inr (ps', hp)"
    and r: "r = VRef (length hp)" and h': "h' = hp @ zs"
    and val: "validateRecord h4 r = Inr (Valid r, h')"
    and keep: "\<And>k. k \<notin> fst ` set (ownEntries h changes) \<Longrightarrow> k \<noteq> ''updatedAt'' \<Longrightarrow>
       k \<noteq> ''price'' \<Longrightarrow> getProp h' r k = Inr (lookupProp ps' k)"
    by blast
  have id': "getProp h' r ''id'' = Inr (lookupProp ps' ''id'')"
    using keep [OF no_id] by simp
  have created': "getProp h' r ''createdAt'' = Inr (lookupProp ps' ''createdAt'')"
    using keep [OF no_createdAt] by simp
  from val have "\<exists>ob4 ps4 i. heapGet h4 (length hp) = Some ob4 \<and> propsOf ob4 = Some ps4 \<and>
      lookupProp ps4 ''id'' = VStr i"
    using validateRecord_valid_iff [of h4 "length hp"] unfolding r by blast
  then obtain i where "getProp h4 r ''id'' = Inr (VStr i)"
    unfolding r using getProp_props by metis
  then have "getProp h' r ''id'' = Inr (VStr i)"
    using validateRecord_effect(2) [OF val [unfolded r], of "''id''"] by (simp add: r)
  with id' have i: "lookupProp ps' ''id'' = VStr i"
    by simp
  have "lookupProp ps ''id'' = VStr i"
    using deepCopyProps_lookup [OF props, of "''id''"] deepCopy_prim i by fastforce
  with i id' have same_id: "getProp h' r ''id'' = getProp h base ''id''"
    unfolding base(1) getProp_props [OF base(2,3)] by simp
  have "snapshot n h' (lookupProp ps' ''createdAt'') = Some c"
    if snap: "snapshot n h (lookupProp ps ''createdAt'') = Some c" for n c
    using deepCopyProps_lookup [OF props, of "''createdAt''"]
  proof (elim disjE conjE exE)
    assume "lookupProp ps ''createdAt'' = VUndefined" "lookupProp ps' ''createdAt'' = VUndefined"
    with snap show ?thesis
      using snapshot_prim [of VUndefined n h' h] by simp
  next
    fix ys hB ws
    assume cp: "deepCopy m (h @ ys) (lookupProp ps ''createdAt'') = Inr (lookupProp ps' ''createdAt'', hB)"
      and hp: "hp = hB @ ws"
    have "snapshot n (h @ ys) (lookupProp ps ''createdAt'') = Some c"
      using snap by (rule snapshot_extends(1))
    then have "snapshot n hB (lookupProp ps' ''createdAt'') = Some c"
      using deepCopy_snapshot(1) [OF cp] by simp
    then have "snapshot n (hB @ (ws @ zs)) (lookupProp ps' ''createdAt'') = Some c"
      by (rule snapshot_extends(1))
    then show ?thesis
      by (simp add: h' hp)
  qed
  with same_id created' show ?thesis
    unfolding base(1) getProp_props [OF base(2,3)] by simp
qed

theorem update_keeps_id_and_createdAt_witness:
  "updateRecordWithValidation cmpNone 5 1678886400000 renameStore (VRef 0) (VRef 4)
     = Inr (Valid (VRef 8), renamedStore) \<and>
   allocated renameStore (VRef 4) \<and>
   ownEntries renameStore (VRef 4) = [(''name'', VStr ''New Name'')] \<and>
   ''id'' \<notin> fst ` set (ownEntries renameStore (VRef 4)) \<and>
   ''createdAt'' \<notin> fst ` set (ownEntries renameStore (VRef 4)) \<and>
   getProp renameStore (VRef 0) ''id'' = Inr (VStr ''rec123'') \<and>
   getProp renamedStore (VRef 8) ''id'' = Inr (VStr ''rec123'') \<and>
   getProp renameStore (VRef 0) ''createdAt'' = Inr (VRef 2) \<and>
   getProp renamedStore (VRef 8) ''createdAt'' = Inr (VRef 6) \<and>
   snapshot 1 renameStore (VRef 2) = Some (CDate (Some 1672531200000)) \<and>
   snapshot 1 renamedStore (VRef 6) = Some (CDate (Some 1672531200000))"
proof -
  have ch: "allocated renameStore (VRef 4)"
    by (simp add: renameStore_def exampleStore_def allocated_def)
  have entries: "ownEntries renameStore (VRef 4) = [(''name'', VStr ''New Name'')]"
    by (simp add: renameStore_def exampleStore_def ownEntries_def heapGet_def)
  have k1: "''id'' \<notin> fst ` set (ownEntries renameStore (VRef 4))"
    and k2: "''createdAt'' \<notin> fst ` set (ownEntries renameStore (VRef 4))"
    by (simp_all add: entries)
  have id0: "getProp renameStore (VRef 0) ''id'' = Inr (VStr ''rec123'')"
    and c0: "getProp renameStore (VRef 0) ''createdAt'' = Inr (VRef 2)"
    by (simp_all add: renameStore_def exampleStore_def heapGet_def lookupProp_def)
  have c1: "getProp renamedStore (VRef 8) ''createdAt'' = Inr (VRef 6)"
    by (simp add: renamedStore_def renameStore_def exampleStore_def heapGet_def lookupProp_def)
  have s0: "snapshot 1 renameStore (VRef 2) = Some (CDate (Some 1672531200000))"
    by (simp add: renameStore_def exampleStore_def heapGet_def)
  from update_keeps_id_and_createdAt [OF renameStore_run ch k1 k2] obtain v v' where
    same: "getProp renamedStore (VRef 8) ''id'' = getProp renameStore (VRef 0) ''id''"
    and before: "getProp renameStore (VRef 0) ''createdAt'' = Inr v"
    and after: "getProp renamedStore (VRef 8) ''createdAt'' = Inr v'"
    and content: "\<And>n c. snapshot n renameStore v = Some c \<Longrightarrow> snapshot n renamedStore v' = Some c"
    by blast
  have v: "v = VRef 2"
    using before c0 by (simp del: getProp.simps)
  have v': "v' = VRef 6"
    using after c1 by (simp del: getProp.simps)
  have id1: "getProp renamedStore (VRef 8) ''id'' = Inr (VStr ''rec123'')"
    using same id0 by (simp del: getProp.simps)
  have s1: "snapshot 1 renamedStore (VRef 6) = Some (CDate (Some 1672531200000))"
    using content [of 1 "CDate (Some 1672531200000)"] s0 unfolding v v' by blast
  from renameStore_run ch entries k1 k2 id0 id1 c0 c1 s0 s1 show ?thesis
    by blast
qed

text \<open>
  Claim C2, as stated, fails: with a change set that names \<open>id\<close> and \<open>createdAt\<close> the
  update succeeds and the record returned has the \<open>id\<close> and the \<open>createdAt\<close> of the
  change set.
\<close>

theorem update_id_createdAt_counterexample:
  "updateRecordWithValidation cmpNone 5 1678886400000 reidStore (VRef 0) (VRef 4)
     = Inr (Valid (VRef 9), reidAfter) \<and>
   getProp reidStore (VRef 0) ''id'' = Inr (VStr ''rec123'') \<and>
   getProp reidAfter (VRef 9) ''id'' = Inr (VStr ''other'') \<and>
   getProp reidStore (VRef 0) ''createdAt'' = Inr (VRef 2) \<and>
   heapGet reidStore 2 = Some (DateObj (Some 1672531200000)) \<and>
   getProp reidAfter (VRef 9) ''createdAt'' = Inr (VRef 5) \<and>
   heapGet reidAfter 5 = Some (DateObj (Some 0))"
  by (simp add: reidStore_run)
    (simp add: reidAfter_def reidStore_def exampleStore_def heapGet_def lookupProp_def)

text \<open>
  Claim C7. Let the base be a valid record whose tags are \<open>["a", "b"]\<close>, of a nesting
  that the call stack can follow, and let the change set be \<open>{tags: ["b", "a"]}\<close>.
  Then the update succeeds, and the tags of the record it returns are \<open>["a", "b"]\<close>:
  the sorted contents are equal, so the loop writes nothing and the copy keeps the order
  of the base record.
\<close>

theorem update_reordered_tags_unchanged:
  assumes base: "heapGet h a = Some (PlainObj ps)"
    and valid: "validateRecord h (VRef a) = Inr (Valid r0, h0)"
    and tags: "lookupProp ps ''tags'' = VRef t"
      "heapGet h t = Some (ArrayObj [VStr ''a'', VStr ''b''])"
    and changes: "heapGet h ch = Some (PlainObj [(''tags'', VRef t2)])"
      "heapGet h t2 = Some (ArrayObj [VStr ''b'', VStr ''a''])"
    and finite: "snapshot depth h (VRef a) = Some content"
  shows "\<exists>c h' t'. updateRecordWithValidation cmp depth now h (VRef a) (VRef ch)
        = Inr (Valid (VRef c), h') \<and>
      getProp h' (VRef c) ''tags'' = Inr (VRef t') \<and>
      heapGet h' t' = Some (ArrayObj [VStr ''a'', VStr ''b''])"
proof -
  from finite obtain m where depth: "depth = Suc m"
    by (cases depth) simp_all
  from finite obtain cps where "snapshotProps m h ps = Some cps"
    by (auto simp: depth base)
  then obtain ps' hp where props: "deepCopyProps m h ps = Inr (ps', hp)"
    using deepCopy_total(3) by blast
  obtain ys where hp: "hp = h @ ys"
    using deepCopy_extends(3) [OF props] by blast
  let ?c = "length hp"
  let ?d = "Suc (length hp)"
  let ?h1 = "hp @ [PlainObj ps']"
  let ?h2 = "?h1 @ [DateObj (Some now)]"
  let ?ps3 = "AList.update ''updatedAt'' (VRef ?d) ps'"
  define h3 where "h3 = ?h2[?c := PlainObj ?ps3]"
  have copy: "deepCopy depth h (VRef a) = Inr (VRef ?c, ?h1)"
    by (simp add: depth base props alloc_def)
  have stamp: "setProp ?h2 (VRef ?c) ''updatedAt'' (VRef (length ?h1)) = Inr h3"
    by (simp add: h3_def heapGet_def nth_append)
  have old: "heapGet h3 x = heapGet hp x" if "x < length hp" for x
    using that by (simp add: h3_def heapGet_def nth_append)
  have low: "heapGet hp x = heapGet h x" if "x < length h" for x
    using that by (simp add: heapGet_def nth_append hp)
  have ch3: "heapGet h3 ch = Some (PlainObj [(''tags'', VRef t2)])"
    using changes(1) heapGet_length [OF changes(1)] old [of ch] low [of ch] by (simp add: hp)
  have t23: "heapGet h3 t2 = Some (ArrayObj [VStr ''b'', VStr ''a''])"
    using changes(2) heapGet_length [OF changes(2)] old [of t2] low [of t2] by (simp add: hp)
  have rec3: "heapGet h3 ?c = Some (PlainObj ?ps3)"
    by (simp add: h3_def heapGet_def)
  \<comment> \<open>the copy of the tags\<close>
  from deepCopyProps_lookup [OF props, of "''tags''"] tags(1)
  obtain zs hB ws where
    cp: "deepCopy m (h @ zs) (VRef t) = Inr (lookupProp ps' ''tags'', hB)" and hB: "hp = hB @ ws"
    by auto
  have "heapGet (h @ zs) t = Some (ArrayObj [VStr ''a'', VStr ''b''])"
    using tags(2) by (rule heapGet_append)
  from deepCopy_two_strings [OF cp this]
  have tags': "lookupProp ps' ''tags'' = VRef (length (h @ zs))"
    and hB': "hB = (h @ zs) @ [ArrayObj [VStr ''a'', VStr ''b'']]"
    by simp_all
  let ?t' = "length (h @ zs)"
  have t'_lt: "?t' < length hp"
    by (simp add: hB hB')
  have "heapGet hp ?t' = Some (ArrayObj [VStr ''a'', VStr ''b''])"
    by (simp add: hB hB' heapGet_def nth_append)
  with old [OF t'_lt] have t'3: "heapGet h3 ?t' = Some (ArrayObj [VStr ''a'', VStr ''b''])"
    by simp
  have tags3: "lookupProp ?ps3 ''tags'' = VRef ?t'"
    by (simp add: lookupProp_update tags')
  \<comment> \<open>the loop writes nothing\<close>
  have one: "applyChange cmp h3 (VRef ?c) (''tags'', VRef t2) = Inr h3"
    using rec3 tags3 t'3 t23 by (rule applyChange_same_tags)
  have loop: "applyChanges cmp h3 (VRef ?c) (ownEntries h3 (VRef ch)) = Inr h3"
    by (simp add: ownEntries_def ch3 one)
  \<comment> \<open>the copy is as valid as the base record\<close>
  from valid base obtain i nm x where
    fields: "lookupProp ps ''id'' = VStr i" "trim i \<noteq> []"
      "lookupProp ps ''name'' = VStr nm" "trim nm \<noteq> []"
      "lookupProp ps ''price'' = VNum x" "x \<noteq> NaN"
    using validateRecord_valid_iff [of h a] by auto
  have plain3: "propsOf (PlainObj ?ps3) = Some ?ps3" "accepts (PlainObj ?ps3) ''price''"
    by simp_all
  have same: "lookupProp ps' k = lookupProp ps k" if "\<forall>b. lookupProp ps k \<noteq> VRef b" for k
    using deepCopyProps_lookup [OF props, of k] that
    by (cases "lookupProp ps k = VUndefined") (auto dest: deepCopy_of_prim)
  have fields3: "lookupProp ?ps3 ''id'' = VStr i" "lookupProp ?ps3 ''name'' = VStr nm"
    "lookupProp ?ps3 ''price'' = VNum x"
    using fields same [of "''id''"] same [of "''name''"] same [of "''price''"]
    by (simp_all add: lookupProp_update)
  have good: "\<not> list_ex badTag [VStr ''a'', VStr ''b'']"
    by (simp add: badTag_def alnumTest_def isAlnum_def)
  have "?t' \<noteq> ?c"
    using t'_lt by simp
  with rec3 plain3 fields3 fields tags3 t'3 good
  have "\<exists>r h'. validateRecord h3 (VRef ?c) = Inr (Valid r, h')"
    unfolding validateRecord_valid_iff by blast
  then obtain r h' where val: "validateRecord h3 (VRef ?c) = Inr (Valid r, h')"
    by blast
  then have r: "r = VRef ?c"
    using validateRecord_effect(1) by fastforce
  have run: "updateRecordWithValidation cmp depth now h (VRef a) (VRef ch)
      = Inr (Valid (VRef ?c), h')"
    using copy stamp loop val unfolding r by (rule update_steps)
  have "getProp h' (VRef ?c) ''tags'' = getProp h3 (VRef ?c) ''tags''"
    using validateRecord_effect(2) [OF val] by simp
  then have g: "getProp h' (VRef ?c) ''tags'' = Inr (VRef ?t')"
    using rec3 tags3 by (simp del: lookupProp_update)
  have "heapGet h' ?t' = heapGet h3 ?t'"
    using heapGet_sameExcept [OF validateRecord_sameExcept [OF val]] \<open>?t' \<noteq> ?c\<close> by simp
  with t'3 g run show ?thesis
    by auto
qed

text \<open>
  The record with tags \<open>["a", "b"]\<close> and the change set with tags \<open>["b", "a"]\<close>: the
  update succeeds and the record returned, at address 9, has the tags at address 6, in
  the order of the base record.
\<close>

theorem update_reordered_tags_unchanged_witness:
  "heapGet tagStore 0 =
     Some (PlainObj [(''id'', VStr ''rec123''), (''name'', VStr ''Original Product''),
                     (''price'', VNum (Fin 50)), (''tags'', VRef 1),
                     (''createdAt'', VRef 2), (''updatedAt'', VRef 3)]) \<and>
   validateRecord tagStore (VRef 0) = Inr (Valid (VRef 0), tagStore) \<and>
   heapGet tagStore 1 = Some (ArrayObj [VStr ''a'', VStr ''b'']) \<and>
   heapGet tagStore 4 = Some (PlainObj [(''tags'', VRef 5)]) \<and>
   heapGet tagStore 5 = Some (ArrayObj [VStr ''b'', VStr ''a'']) \<and>
   snapshot 5 tagStore (VRef 0) = Some (CObject
     [(''id'', CStr ''rec123''), (''name'', CStr ''Original Product''),
      (''price'', CNum (Fin 50)), (''tags'', CArray [CStr ''a'', CStr ''b'']),
      (''createdAt'', CDate (Some 1672531200000)),
      (''updatedAt'', CDate (Some 1672531200000))]) \<and>
   (\<exists>c h' t'. updateRecordWithValidation cmpNone 5 1678886400000 tagStore (VRef 0) (VRef 4)
        = Inr (Valid (VRef c), h') \<and>
      getProp h' (VRef c) ''tags'' = Inr (VRef t') \<and>
      heapGet h' t' = Some (ArrayObj [VStr ''a'', VStr ''b''])) \<and>
   updateRecordWithValidation cmpNone 5 1678886400000 tagStore (VRef 0) (VRef 4)
     = Inr (Valid (VRef 9), tagAfter)"
proof -
  let ?ps = "[(''id'', VStr ''rec123''), (''name'', VStr ''Original Product''),
              (''price'', VNum (Fin 50)), (''tags'', VRef 1),
              (''createdAt'', VRef 2), (''updatedAt'', VRef 3)]"
  have base: "heapGet tagStore 0 = Some (PlainObj ?ps)"
    by (simp add: tagStore_def heapGet_def)
  have valid: "validateRecord tagStore (VRef 0) = Inr (Valid (VRef 0), tagStore)"
    by (simp add: tagStore_def validate_eval number_eval)
  have tags: "lookupProp ?ps ''tags'' = VRef 1"
    "heapGet tagStore 1 = Some (ArrayObj [VStr ''a'', VStr ''b''])"
    by (simp_all add: tagStore_def heapGet_def lookupProp_def)
  have changes: "heapGet tagStore 4 = Some (PlainObj [(''tags'', VRef 5)])"
    "heapGet tagStore 5 = Some (ArrayObj [VStr ''b'', VStr ''a''])"
    by (simp_all add: tagStore_def heapGet_def)
  have finite: "snapshot 5 tagStore (VRef 0) = Some (CObject
     [(''id'', CStr ''rec123''), (''name'', CStr ''Original Product''),
      (''price'', CNum (Fin 50)), (''tags'', CArray [CStr ''a'', CStr ''b'']),
      (''createdAt'', CDate (Some 1672531200000)),
      (''updatedAt'', CDate (Some 1672531200000))])"
    by (simp add: tagStore_def snapshot_numeral heapGet_def)
  have run: "updateRecordWithValidation cmpNone 5 1678886400000 tagStore (VRef 0) (VRef 4)
     = Inr (Valid (VRef 9), tagAfter)"
    by (simp add: tagAfter_def tagStore_def update_eval validate_eval number_eval
        del: sort_key_simps add: sort_b_a)
  from update_reordered_tags_unchanged [OF base valid tags changes finite]
    base valid tags(2) changes finite run
  show ?thesis
    by blast
qed

section \<open>The arithmetic of rounding\<close>

lemma pow2_powi: "pow2 e = 2 powi e"
  by (simp add: pow2_def power_int_def inverse_eq_divide power_one_over)

lemma pow2_pos: "0 < pow2 e"
  by (simp add: pow2_powi)

lemma pow2_add: "pow2 (a + b) = pow2 a * pow2 b"
  by (simp add: pow2_powi power_int_add)

lemma pow2_mono: "a \<le> b \<Longrightarrow> pow2 a \<le> pow2 b"
  by (simp add: pow2_powi power_int_increasing)

lemma pow2_strict_mono: "a < b \<Longrightarrow> pow2 a < pow2 b"
  by (simp add: pow2_powi power_int_strict_increasing)

lemma pow2_nat: "pow2 (int n) = 2 ^ n"
  by (simp add: pow2_def)

lemma pow2_values: "pow2 52 = 2 ^ 52" "pow2 53 = 2 ^ 53" "pow2 (-7) = 1 / 128" "pow2 (-6) = 1 / 64"
  by (simp_all add: pow2_def)

lemma log2floor_bounds: "0 < n \<Longrightarrow> 2 ^ log2floor n \<le> n \<and> n < 2 ^ Suc (log2floor n)"
proof (induction n rule: log2floor.induct)
  case (1 n)
  show ?case
  proof (cases "n < 2")
    case True
    with "1.prems" have "n = 1" by simp
    then show ?thesis by (simp add: log2floor.simps)
  next
    case False
    then have "0 < n div 2" by simp
    with "1.IH" False have ih: "2 ^ log2floor (n div 2) \<le> n div 2" "n div 2 < 2 ^ Suc (log2floor (n div 2))"
      by simp_all
    have l: "log2floor n = Suc (log2floor (n div 2))"
      using False by (subst log2floor.simps) simp
    from ih show ?thesis
      unfolding l by (simp; linarith)
  qed
qed

lemma ilog2_bounds:
  assumes "1 / 128 \<le> q"
  shows "pow2 (ilog2 q) \<le> q" and "q < pow2 (ilog2 q + 1)"
proof -
  define N where "N = nat \<lfloor>q * 128\<rfloor>"
  define L where "L = log2floor N"
  have q128: "1 \<le> q * 128"
    using assms by simp
  then have "1 \<le> \<lfloor>q * 128\<rfloor>"
    by (simp add: le_floor_iff)
  then have N: "0 < N" "int N = \<lfloor>q * 128\<rfloor>"
    by (simp_all add: N_def)
  from log2floor_bounds [OF N(1)] have b: "2 ^ L \<le> N" "N < 2 ^ Suc L"
    by (simp_all add: L_def)
  have "rat_of_int \<lfloor>q * 128\<rfloor> \<le> q * 128"
    by (rule of_int_floor_le)
  then have a: "rat_of_nat N \<le> q * 128"
    unfolding N(2) [symmetric] by simp
  have "(of_nat (2 ^ L) :: rat) \<le> of_nat N"
    using b(1) by (rule of_nat_mono)
  then have "(2::rat) ^ L \<le> of_nat N"
    by simp
  with a have lo: "2 ^ L \<le> q * 128"
    by linarith
  have "q * 128 < rat_of_int \<lfloor>q * 128\<rfloor> + 1"
    by linarith
  then have c: "q * 128 < rat_of_nat N + 1"
    unfolding N(2) [symmetric] by simp
  have "N + 1 \<le> 2 ^ Suc L"
    using b(2) by simp
  then have "(of_nat (N + 1) :: rat) \<le> of_nat (2 ^ Suc L)"
    by (rule of_nat_mono)
  then have "rat_of_nat N + 1 \<le> 2 ^ Suc L"
    by simp
  with c have hi: "q * 128 < 2 ^ Suc L"
    by linarith
  have il: "ilog2 q = int L - 7"
    by (simp add: ilog2_def L_def N_def)
  have p: "pow2 (int L - 7) = 2 ^ L / 128"
    using pow2_add [of "int L" "-7"] by (simp add: pow2_nat pow2_values)
  have "pow2 (int (Suc L) + (-7)) = pow2 (int (Suc L)) * pow2 (-7)"
    by (rule pow2_add)
  also have "\<dots> = 2 ^ Suc L / 128"
    unfolding pow2_nat pow2_values by simp
  also have "int (Suc L) + (-7) = int L - 7 + 1"
    by simp
  finally have p': "pow2 (int L - 7 + 1) = 2 ^ Suc L / 128" .
  show "pow2 (ilog2 q) \<le> q"
    unfolding il p using lo by simp
  show "q < pow2 (ilog2 q + 1)"
    unfolding il p' using hi by simp
qed

lemma ilog2_unique:
  assumes "pow2 k \<le> q" and "q < pow2 (k + 1)" and "1 / 128 \<le> q"
  shows "ilog2 q = k"
proof -
  note b = ilog2_bounds [OF assms(3)]
  have "\<not> k + 1 \<le> ilog2 q"
  proof
    assume "k + 1 \<le> ilog2 q"
    then have "pow2 (k + 1) \<le> pow2 (ilog2 q)" by (rule pow2_mono)
    with b(1) assms(2) show False by simp
  qed
  moreover have "\<not> ilog2 q + 1 \<le> k"
  proof
    assume "ilog2 q + 1 \<le> k"
    then have "pow2 (ilog2 q + 1) \<le> pow2 k" by (rule pow2_mono)
    with b(2) assms(1) show False by simp
  qed
  ultimately show ?thesis by simp
qed

lemma roundHalfEven_floor: "\<lfloor>s\<rfloor> \<le> roundHalfEven s" "roundHalfEven s \<le> \<lfloor>s\<rfloor> + 1"
  by (simp_all add: roundHalfEven_def Let_def)

lemma roundHalfEven_error: "\<bar>of_int (roundHalfEven s) - s\<bar> \<le> 1 / 2"
proof -
  have "of_int \<lfloor>s\<rfloor> \<le> s" "s < of_int \<lfloor>s\<rfloor> + 1"
    by linarith+
  then show ?thesis
    unfolding roundHalfEven_def Let_def by (simp add: abs_le_iff)
qed

lemma roundHalfEven_near:
  assumes "\<bar>s - of_int m\<bar> < 1 / 2"
  shows "roundHalfEven s = m"
proof (cases "of_int m \<le> s")
  case True
  with assms have "\<lfloor>s\<rfloor> = m"
    by (intro floor_unique) (simp_all add: abs_less_iff)
  with assms True show ?thesis
    by (simp add: roundHalfEven_def Let_def abs_less_iff)
next
  case False
  with assms have f: "\<lfloor>s\<rfloor> = m - 1"
    by (intro floor_unique) (simp_all add: abs_less_iff)
  from assms False have "1 / 2 < s - of_int (m - 1)"
    by (simp add: abs_less_iff)
  then show ?thesis
    by (simp add: roundHalfEven_def Let_def f)
qed

lemma roundHalfEven_int: "roundHalfEven (of_int m) = m"
  by (rule roundHalfEven_near) simp

lemma pow2_split: "pow2 (e + 52) = 2 ^ 52 * pow2 e" "pow2 (e + 53) = 2 ^ 53 * pow2 e"
  by (simp_all add: pow2_add pow2_values)

lemma toDouble_pow2:
  assumes "-7 \<le> j"
  shows "toDouble (pow2 j) = pow2 j"
proof -
  have "pow2 (-7) \<le> pow2 j"
    using assms by (rule pow2_mono)
  then have big: "1 / 128 \<le> pow2 j"
    by (simp add: pow2_values)
  have "pow2 j < pow2 (j + 1)"
    by (rule pow2_strict_mono) simp
  then have il: "ilog2 (pow2 j) = j"
    using big by (intro ilog2_unique) simp_all
  have "pow2 j = 2 ^ 52 * pow2 (j - 52)"
    using pow2_split(1) [of "j - 52"] by simp
  then have "pow2 j / pow2 (j - 52) = of_int (2 ^ 52)"
    using pow2_pos [of "j - 52"] by (simp add: field_simps)
  then have "roundHalfEven (pow2 j / pow2 (j - 52)) = 2 ^ 52"
    by (simp only: roundHalfEven_int)
  then have "toDouble (pow2 j) = of_int (2 ^ 52) * pow2 (j - 52)"
    by (simp only: toDouble_def Let_def il)
  also have "\<dots> = pow2 j"
    using pow2_split(1) [of "j - 52"] by simp
  finally show ?thesis .
qed

lemma toDouble_form:
  assumes "1 / 128 \<le> q"
  obtains m e where "toDouble q = of_int m * pow2 e"
    and "2 ^ 52 \<le> m" and "m \<le> 2 ^ 53"
    and "\<bar>of_int m * pow2 e - q\<bar> \<le> pow2 e / 2"
proof -
  define e where "e = ilog2 q - 52"
  define s where "s = q / pow2 e"
  define m where "m = roundHalfEven s"
  have P: "0 < pow2 e"
    by (rule pow2_pos)
  have q: "q = s * pow2 e"
    using P by (simp add: s_def)
  from ilog2_bounds [OF assms] have "pow2 (e + 52) \<le> q" "q < pow2 (e + 53)"
    by (simp_all add: e_def add.commute)
  then have "2 ^ 52 * pow2 e \<le> s * pow2 e" "s * pow2 e < 2 ^ 53 * pow2 e"
    unfolding pow2_split q [symmetric] by simp_all
  then have s: "2 ^ 52 \<le> s" "s < 2 ^ 53"
    using P by simp_all
  have "(2::int) ^ 52 \<le> \<lfloor>s\<rfloor>"
    using s(1) by (simp add: le_floor_iff)
  then have lo: "2 ^ 52 \<le> m"
    using roundHalfEven_floor(1) [of s] unfolding m_def by linarith
  have "\<lfloor>s\<rfloor> < (2::int) ^ 53"
    using s(2) by (simp add: floor_less_iff)
  then have hi: "m \<le> 2 ^ 53"
    using roundHalfEven_floor(2) [of s] unfolding m_def by linarith
  have "\<bar>of_int m - s\<bar> \<le> 1 / 2"
    unfolding m_def by (rule roundHalfEven_error)
  then have "\<bar>of_int m - s\<bar> * pow2 e \<le> 1 / 2 * pow2 e"
    using P by (intro mult_right_mono) simp_all
  moreover have "\<bar>of_int m * pow2 e - q\<bar> = \<bar>(of_int m - s) * pow2 e\<bar>"
    by (simp add: q left_diff_distrib)
  moreover have "\<bar>(of_int m - s) * pow2 e\<bar> = \<bar>of_int m - s\<bar> * pow2 e"
    using P by (simp add: abs_mult)
  ultimately have err: "\<bar>of_int m * pow2 e - q\<bar> \<le> pow2 e / 2"
    by simp
  have "toDouble q = of_int m * pow2 e"
    by (simp add: toDouble_def Let_def m_def s_def e_def)
  from this lo hi err show thesis
    by (rule that)
qed


lemma floor_half_unique:
  fixes x :: rat
  assumes "\<bar>x - of_int n\<bar> < 1 / 2"
  shows "\<lfloor>x + 1 / 2\<rfloor> = n"
proof (rule floor_unique)
  show "of_int n \<le> x + 1 / 2"
    using assms by linarith
  show "x + 1 / 2 < of_int n + 1"
    using assms by linarith
qed

lemma floor_half_error:
  fixes x :: rat
  shows "\<bar>of_int \<lfloor>x + 1 / 2\<rfloor> - x\<bar> \<le> 1 / 2"
proof -
  have "of_int \<lfloor>x + 1 / 2\<rfloor> \<le> x + 1 / 2" "x + 1 / 2 < of_int \<lfloor>x + 1 / 2\<rfloor> + 1"
    by linarith+
  then show ?thesis
    by linarith
qed

text \<open>Rounding a double that was read from hundredths to hundredths and reading it again
  gives the same double.\<close>

lemma toDouble_reround:
  assumes n: "0 < n" and d: "d = toDouble (of_nat n / 100)"
  shows "0 < d" and "0 < nat \<lfloor>d * 100 + 1 / 2\<rfloor>"
    and "toDouble (of_nat (nat \<lfloor>d * 100 + 1 / 2\<rfloor>) / 100) = d"
proof -
  define q :: rat where "q = of_nat n / 100"
  have "1 \<le> (of_nat n :: rat)"
    using n by simp
  then have q_big: "1 / 128 \<le> q"
    by (simp add: q_def)
  from toDouble_form [OF q_big] obtain m e where
    form: "toDouble q = of_int m * pow2 e" and lo: "2 ^ 52 \<le> m" and hi: "m \<le> 2 ^ 53"
    and err: "\<bar>of_int m * pow2 e - q\<bar> \<le> pow2 e / 2"
    by blast
  define P where "P = pow2 e"
  have P: "0 < P"
    unfolding P_def by (rule pow2_pos)
  have dm: "d = of_int m * P"
    by (simp add: d form q_def [symmetric] P_def)
  have m_pos: "(0::rat) < of_int m"
    using lo by simp
  then show d_pos: "0 < d"
    using P by (simp add: dm)
  have err': "\<bar>d - q\<bar> \<le> P / 2"
    using err by (simp add: dm P_def)
  have m_lo: "(2::rat) ^ 52 \<le> of_int m"
    using lo by (metis of_int_le_iff of_int_numeral of_int_power)
  have m_hi: "of_int m \<le> (2::rat) ^ 53"
    using hi by (metis of_int_le_iff of_int_numeral of_int_power)
  show "0 < nat \<lfloor>d * 100 + 1 / 2\<rfloor>"
    and "toDouble (of_nat (nat \<lfloor>d * 100 + 1 / 2\<rfloor>) / 100) = d"
  proof -
    have both: "0 < nat \<lfloor>d * 100 + 1 / 2\<rfloor> \<and>
        toDouble (of_nat (nat \<lfloor>d * 100 + 1 / 2\<rfloor>) / 100) = d"
    proof (cases "e \<le> -7")
      case True
      then have "pow2 e \<le> pow2 (-7)"
        by (rule pow2_mono)
      then have "P \<le> 1 / 128"
        by (simp add: P_def pow2_values)
      with err' have "\<bar>d - q\<bar> \<le> 1 / 256"
        by simp
      then have "\<bar>d * 100 - of_int (int n)\<bar> < 1 / 2"
        unfolding q_def of_int_of_nat_eq by linarith
      then have "\<lfloor>d * 100 + 1 / 2\<rfloor> = int n"
        by (rule floor_half_unique)
      then show ?thesis
        using n by (simp add: d)
    next
      case False
      then have "pow2 (-6) \<le> pow2 e"
        by (intro pow2_mono) simp
      then have P_big: "1 / 64 \<le> P"
        by (simp add: P_def pow2_values)
      define n' where "n' = \<lfloor>d * 100 + 1 / 2\<rfloor>"
      define q' :: rat where "q' = of_int n' / 100"
      have "\<bar>of_int n' - d * 100\<bar> \<le> 1 / 2"
        unfolding n'_def by (rule floor_half_error)
      then have close: "\<bar>q' - d\<bar> \<le> 1 / 200"
        unfolding q'_def by linarith
      have "2 ^ 52 * (1 / 64) \<le> of_int m * P"
        using m_lo P_big by (intro mult_mono) simp_all
      then have d_big: "2 ^ 46 \<le> d"
        by (simp add: dm)
      with close have q'_big: "2 ^ 46 - 1 / 200 \<le> q'"
        by linarith
      moreover have "(1::rat) \<le> 2 ^ 46"
        by simp
      ultimately have "0 < q'"
        by linarith
      then have n'_pos: "0 < n'"
        by (simp add: q'_def)
      then have nat': "rat_of_nat (nat n') = of_int n'"
        by simp
      have goal: "toDouble q' = d"
      proof (cases "m = 2 ^ 52 \<or> m = 2 ^ 53")
        case True
        then obtain j where j: "d = pow2 j" "0 \<le> j"
        proof
          assume "m = 2 ^ 52"
          then have "d = pow2 (e + 52)"
            by (simp add: dm P_def pow2_split)
          moreover have "0 \<le> e + 52"
            using False by simp
          ultimately show ?thesis
            by (rule that)
        next
          assume "m = 2 ^ 53"
          then have "d = pow2 (e + 53)"
            by (simp add: dm P_def pow2_split)
          moreover have "0 \<le> e + 53"
            using False by simp
          ultimately show ?thesis
            by (rule that)
        qed
        then have "d = of_int (2 ^ nat j)"
          by (simp add: pow2_def)
        then have "d * 100 = of_int (2 ^ nat j * 100)"
          by simp
        then have "\<bar>d * 100 - of_int (2 ^ nat j * 100)\<bar> < 1 / 2"
          by simp
        then have "\<lfloor>d * 100 + 1 / 2\<rfloor> = 2 ^ nat j * 100"
          by (rule floor_half_unique)
        then have "q' = d"
          using \<open>d = of_int (2 ^ nat j)\<close> by (simp add: q'_def n'_def)
        moreover have "toDouble (pow2 j) = pow2 j"
          using j(2) by (intro toDouble_pow2) simp
        ultimately show ?thesis
          by (simp add: j(1))
      next
        case False
        with lo hi have "2 ^ 52 + 1 \<le> m" "m \<le> 2 ^ 53 - 1"
          by simp_all
        then have "rat_of_int (2 ^ 52 + 1) \<le> of_int m" "rat_of_int m \<le> of_int (2 ^ 53 - 1)"
          by (simp_all only: of_int_le_iff)
        then have m1: "(2::rat) ^ 52 + 1 \<le> of_int m" and m2: "of_int m \<le> (2::rat) ^ 53 - 1"
          by simp_all
        have "(2 ^ 52 + 1) * P \<le> of_int m * P"
          using m1 P by (intro mult_right_mono) simp_all
        then have d1: "2 ^ 52 * P + P \<le> d"
          by (simp add: dm distrib_right)
        have "of_int m * P \<le> (2 ^ 53 - 1) * P"
          using m2 P by (intro mult_right_mono) simp_all
        then have d2: "d \<le> 2 ^ 53 * P - P"
          by (simp add: dm left_diff_distrib)
        from d1 close P_big have "2 ^ 52 * P \<le> q'"
          by linarith
        then have b1: "pow2 (e + 52) \<le> q'"
          by (simp only: pow2_split P_def)
        from d2 close P_big have "q' < 2 ^ 53 * P"
          by linarith
        then have b2: "q' < pow2 (e + 52 + 1)"
          by (simp only: pow2_split P_def add.assoc one_add_one numeral_plus_numeral
              semiring_norm)
        have "(1::rat) \<le> 2 ^ 46"
          by simp
        with q'_big have "1 / 128 \<le> q'"
          by linarith
        with b1 b2 have il: "ilog2 q' = e + 52"
          by (rule ilog2_unique)
        have inv: "1 / P \<le> 64"
          using P P_big by (simp add: field_simps)
        have "\<bar>q' - d\<bar> * (1 / P) \<le> 1 / 200 * 64"
          using close inv P by (intro mult_mono) simp_all
        moreover have "(q' - d) * (1 / P) = q' / P - of_int m"
          using P by (simp add: dm diff_divide_distrib)
        moreover have "\<bar>(q' - d) * (1 / P)\<bar> = \<bar>q' - d\<bar> * (1 / P)"
          using P by (simp add: abs_mult)
        ultimately have "\<bar>q' / P - of_int m\<bar> < 1 / 2"
          by simp
        then have "roundHalfEven (q' / P) = m"
          by (rule roundHalfEven_near)
        then have "roundHalfEven (q' / pow2 (ilog2 q' - 52)) = m"
          by (simp add: il P_def)
        then show ?thesis
          by (simp add: toDouble_def Let_def dm) (simp add: il P_def)
      qed
      show ?thesis
        using n'_pos goal nat' unfolding q'_def n'_def by simp
    qed
    from both show "0 < nat \<lfloor>d * 100 + 1 / 2\<rfloor>"
      by (rule conjunct1)
    from both show "toDouble (of_nat (nat \<lfloor>d * 100 + 1 / 2\<rfloor>) / 100) = d"
      by (rule conjunct2)
  qed
qed

lemma round2_nan: "parseFloat (toFixed2 x) = NaN \<longleftrightarrow> x = NaN"
  by (cases x) auto

text \<open>Rounding a rounded number again changes at most the sign of a zero.\<close>

lemma round2_again:
  "parseFloat (toFixed2 (parseFloat (toFixed2 x))) =
     (if parseFloat (toFixed2 x) = NegZero then Fin 0 else parseFloat (toFixed2 x))"
proof (cases x)
  case (Fin q)
  show ?thesis
  proof (cases "10 ^ 21 \<le> \<bar>q\<bar>")
    case True
    then show ?thesis
      by (simp add: Fin)
  next
    case small: False
    define n where "n = nat \<lfloor>\<bar>q\<bar> * 100 + 1 / 2\<rfloor>"
    show ?thesis
    proof (cases "n = 0")
      case True
      with small show ?thesis
        by (simp add: Fin n_def [symmetric])
    next
      case False
      define d where "d = toDouble (of_nat n / 100)"
      from False have n: "0 < n"
        by simp
      note again = toDouble_reround [OF n d_def]
      define n' where "n' = nat \<lfloor>d * 100 + 1 / 2\<rfloor>"
      have n': "n' \<noteq> 0" "toDouble (of_nat n' / 100) = d"
        using again(2,3) by (simp_all add: n'_def)
      have first: "parseFloat (toFixed2 (Fin q)) = Fin (if q < 0 then - d else d)"
        using small False by (simp add: n_def [symmetric] d_def)
      have pos: "parseFloat (toFixed2 (Fin d)) = Fin d"
        using again(1) n' by (simp add: n'_def [symmetric])
      have neg: "parseFloat (toFixed2 (Fin (- d))) = Fin (- d)"
        using again(1) n' by (simp add: n'_def [symmetric])
      show ?thesis
        unfolding Fin first using pos neg by simp
    qed
  qed
qed simp_all

section \<open>Validating twice\<close>

lemma update_price_twice:
  "AList.update ''price'' v (AList.update ''price'' w ps) = AList.update ''price'' v ps"
  by (induction ps) auto

text \<open>
  Claim C8, as amended. When \<open>validateRecord\<close> succeeds on a record, validating the
  record it returns succeeds again with the same record. The second run leaves the
  store as the first run left it, with one exception: a price that the first run
  rounded to negative zero is rewritten to positive zero (the two are equal under
  \<open>===\<close>), and then no other field changes.
\<close>

theorem validateRecord_twice:
  assumes first: "validateRecord h r = Inr (Valid r1, h1)"
  shows "\<exists>h2. validateRecord h1 r1 = Inr (Valid r1, h2) \<and>
    (getProp h1 r1 ''price'' \<noteq> Inr (VNum NegZero) \<longrightarrow> h2 = h1) \<and>
    (getProp h1 r1 ''price'' = Inr (VNum NegZero) \<longrightarrow>
       getProp h2 r1 ''price'' = Inr (VNum (Fin 0)) \<and>
       (\<forall>k. k \<noteq> ''price'' \<longrightarrow> getProp h2 r1 k = getProp h1 r1 k))"
proof -
  from first obtain a where r: "r = VRef a"
    using validateRecord_nonref [of r h] by (cases r) auto
  from first have r1: "r1 = VRef a"
    using validateRecord_effect(1) [of h a "Valid r1" h1] unfolding r by simp
  from first obtain ob ps i nm x t items where
    rec: "heapGet h a = Some ob" "propsOf ob = Some ps" "accepts ob ''price''"
    and fields: "lookupProp ps ''id'' = VStr i" "trim i \<noteq> []"
      "lookupProp ps ''name'' = VStr nm" "trim nm \<noteq> []"
      "lookupProp ps ''price'' = VNum x" "x \<noteq> NaN"
      "lookupProp ps ''tags'' = VRef t" "t \<noteq> a"
      "heapGet h t = Some (ArrayObj items)" "\<not> list_ex badTag items"
    using validateRecord_valid_iff [of h a] unfolding r by blast
  define y where "y = parseFloat (toFixed2 x)"
  define ps1 where "ps1 = AList.update ''price'' (VNum y) ps"
  define ob1 where "ob1 = withProps ob ps1"
  have a: "a < length h"
    using rec(1) by (rule heapGet_length)
  have h1: "h1 = h[a := ob1]"
    using validateRecord_rounds_price_run [OF rec(1,2) fields(5,6)] first
    by (simp add: r ob1_def ps1_def y_def)
  have rec1: "heapGet h1 a = Some ob1" "propsOf ob1 = Some ps1" "accepts ob1 ''price''"
    using a rec(2) accepts_withProps [OF rec(3), of "VNum y" ps]
    by (simp_all add: h1 heapGet_def ob1_def ps1_def propsOf_withProps)
  have tags1: "heapGet h1 t = Some (ArrayObj items)"
    using fields(8,9) by (simp add: h1 heapGet_def split: if_splits)
  have y: "y \<noteq> NaN"
    using fields(6) by (simp add: y_def round2_nan)
  have fields1: "lookupProp ps1 ''id'' = VStr i" "lookupProp ps1 ''name'' = VStr nm"
    "lookupProp ps1 ''price'' = VNum y" "lookupProp ps1 ''tags'' = VRef t"
    using fields by (simp_all add: ps1_def lookupProp_update)
  have "\<exists>r' h'. validateRecord h1 (VRef a) = Inr (Valid r', h')"
    unfolding validateRecord_valid_iff
    using rec1 fields1 fields(2,4,8,10) y tags1 by blast
  then obtain r' h2 where second: "validateRecord h1 (VRef a) = Inr (Valid r', h2)"
    by blast
  then have r': "r' = VRef a"
    using validateRecord_effect(1) [of h1 a "Valid r'" h2] by simp
  define z where "z = parseFloat (toFixed2 y)"
  have h2: "h2 = h1[a := withProps ob (AList.update ''price'' (VNum z) ps)]"
    using validateRecord_rounds_price_run [OF rec1(1,2) fields1(3) y] second
    by (simp add: z_def ob1_def ps1_def update_price_twice withProps_twice)
  have z: "z = (if y = NegZero then Fin 0 else y)"
    unfolding z_def y_def by (rule round2_again)
  have price1: "getProp h1 r1 ''price'' = Inr (VNum y)"
    unfolding r1 getProp_props [OF rec1(1,2)] by (simp add: fields1(3))
  have same: "h2 = h1" if "y \<noteq> NegZero"
    using that a by (simp add: h2 z h1 ob1_def ps1_def)
  have zero: "getProp h2 r1 ''price'' = Inr (VNum (Fin 0))" if "y = NegZero"
    unfolding r1 h2 h1 using that a rec(2)
    by (simp add: getProp_withProps z lookupProp_update del: getProp.simps)
  have others: "getProp h2 r1 k = getProp h1 r1 k" if "k \<noteq> ''price''" for k
    unfolding r1 h2 h1 ob1_def using that a rec(2)
    by (simp add: getProp_withProps lookupProp_update ps1_def del: getProp.simps)
  from second same zero others show ?thesis
    unfolding r1 [symmetric] r' price1 by auto
qed

text \<open>
  The record of the test suite: the first validation rounds 50.00390625 to 50, the second
  changes nothing.
\<close>

theorem validateRecord_twice_witness:
  "validateRecord exampleStore (VRef 0) = Inr (Valid (VRef 0), exampleValidated) \<and>
   getProp exampleValidated (VRef 0) ''price'' = Inr (VNum (Fin 50)) \<and>
   validateRecord exampleValidated (VRef 0) = Inr (Valid (VRef 0), exampleValidated)"
proof -
  have first: "validateRecord exampleStore (VRef 0) = Inr (Valid (VRef 0), exampleValidated)"
    by (simp add: exampleStore_def exampleValidated_def validate_eval number_eval)
  have price: "getProp exampleValidated (VRef 0) ''price'' = Inr (VNum (Fin 50))"
    by (simp add: exampleValidated_def heapGet_def lookupProp_def)
  then have "getProp exampleValidated (VRef 0) ''price'' \<noteq> Inr (VNum NegZero)"
    by (simp del: getProp.simps)
  with validateRecord_twice [OF first]
  have "validateRecord exampleValidated (VRef 0) = Inr (Valid (VRef 0), exampleValidated)"
    by auto
  with first price show ?thesis
    by blast
qed

text \<open>
  Claim C8, as stated, fails: the record whose price is \<open>-1/1024\<close> is valid, its
  validated form has a price of negative zero, and validating that form again changes
  the price to positive zero.
\<close>

theorem validateRecord_twice_counterexample:
  "validateRecord smallNegativeStore (VRef 0) = Inr (Valid (VRef 0), negativeZeroStore) \<and>
   validateRecord negativeZeroStore (VRef 0) = Inr (Valid (VRef 0), zeroStore) \<and>
   negativeZeroStore \<noteq> zeroStore"
  by (simp add: smallNegativeStore_def negativeZeroStore_def zeroStore_def validate_eval
      number_eval)

end
